theory Spec2Isabelle
  imports Complex_Main "HOL-Library.Sublist"
begin

section \<open>Multiavatar-Go: a shallow embedding of package multiavatar\<close>

text \<open>
  The package derives an SVG avatar from a string. The embedding follows the later of the
  two versions of the package file (the one with the functional options); the earlier
  version, \<^verbatim>\<open>multiavatar.go\<close>, has the same seed extraction, scaling and placeholder
  substitution and only the option \<^verbatim>\<open>WithoutBackground\<close>.

  Go strings are byte sequences, and so are HOL strings (\<^typ>\<open>char\<close> is a byte), hence
  \<^verbatim>\<open>len\<close> is \<^const>\<open>length\<close> and \<^verbatim>\<open>[]byte(input)\<close> is the identity.
  A run-time panic of the Go program is a value of type \<open>error\<close>; functions that can panic
  return \<open>error + 'a\<close>.
\<close>

datatype error = SliceBoundsOutOfRange | IndexOutOfRange

subsection \<open>What the package takes from outside\<close>

text \<open>
  \<^verbatim>\<open>crypto/sha256\<close> and the Unicode case tables of \<^verbatim>\<open>strings.ToUpper\<close> and
  \<^verbatim>\<open>strings.ToLower\<close> are library code, not code of the package: they are parameters of
  the model. \<open>Sum256\<close> maps the input bytes to the digest bytes; \<open>unicode_ToUpper\<close> and
  \<open>unicode_ToLower\<close> are the slow paths the two case functions take on a string with a
  byte outside ASCII.
\<close>

record stdlib =
  Sum256 :: "string \<Rightarrow> string"
  unicode_ToUpper :: "string \<Rightarrow> string"
  unicode_ToLower :: "string \<Rightarrow> string"

text \<open>
  The catalog tables \<^verbatim>\<open>themes\<close> and \<^verbatim>\<open>parts\<close> are package-level variables whose
  declarations are not among the sources; they are parameters too.
  \<open>themes cat partV theme partName\<close> is the three-level map lookup
  \<^verbatim>\<open>themes[partV][theme][partName]\<close> (\<open>None\<close> when \<^verbatim>\<open>ok\<close> is false), and
  \<open>parts cat partID partIndex\<close> is \<^verbatim>\<open>parts[partID][partIndex]\<close>, \<open>None\<close> when that
  index expression panics.
\<close>

record catalog =
  themes :: "string \<Rightarrow> string \<Rightarrow> string \<Rightarrow> string list option"
  parts :: "int \<Rightarrow> nat \<Rightarrow> string option"

subsection \<open>Library functions on strings\<close>

definition digit_chars :: "string" where
  "digit_chars = ''0123456789''"

text \<open>\<^verbatim>\<open>strconv.Atoi\<close> on a short string (its fast path; every call of the package passes
  two bytes): an optional sign, then decimal digits only. \<open>None\<close> is the syntax error.\<close>

fun atoi_digits :: "int \<Rightarrow> string \<Rightarrow> int option" where
  "atoi_digits n [] = Some n"
| "atoi_digits n (ch # s) =
     (if ch \<in> set digit_chars then atoi_digits (n * 10 + (of_char ch - 48)) s else None)"

definition Atoi :: "string \<Rightarrow> int option" where
  "Atoi s0 =
     (if s0 = [] then None
      else let s = (if hd s0 = CHR ''-'' \<or> hd s0 = CHR ''+'' then tl s0 else s0) in
        if s = [] then None
        else (case atoi_digits 0 s of
                None \<Rightarrow> None
              | Some n \<Rightarrow> Some (if hd s0 = CHR ''-'' then - n else n)))"

text \<open>The call sites write \<^verbatim>\<open>n, _ := strconv.Atoi(s)\<close>: on an error \<^verbatim>\<open>n\<close> is 0.\<close>

definition atoi_or_zero :: "string \<Rightarrow> int" where
  "atoi_or_zero s = (case Atoi s of Some n \<Rightarrow> n | None \<Rightarrow> 0)"

text \<open>\<^verbatim>\<open>fmt.Sprintf("%02d", n)\<close>: the decimal digits, zero-padded to width 2 after the sign.\<close>

fun decimal :: "nat \<Rightarrow> string" where
  "decimal n =
     (if n < 10 then [digit_chars ! n] else decimal (n div 10) @ [digit_chars ! (n mod 10)])"

declare decimal.simps [simp del]

definition Sprintf_02d :: "int \<Rightarrow> string" where
  "Sprintf_02d n =
     (let sign = (if n < 0 then ''-'' else '''');
          ds = decimal (nat \<bar>n\<bar>)
      in sign @ replicate (2 - length sign - length ds) CHR ''0'' @ ds)"

text \<open>\<^verbatim>\<open>hex.EncodeToString\<close>: two lowercase hexadecimal digits per byte.\<close>

definition hextable :: "string" where
  "hextable = ''0123456789abcdef''"

definition EncodeToString :: "string \<Rightarrow> string" where
  "EncodeToString src =
     concat (map (\<lambda>v. [hextable ! (of_char v div 16), hextable ! (of_char v mod 16)]) src)"

text \<open>
  \<^verbatim>\<open>strings.TrimSpace\<close> removes leading and trailing white space as Unicode defines it.
  On bytes: the UTF-8 encodings of the white-space code points are stripped from the front
  while one is a prefix, then from the back while one is a suffix.
\<close>

definition space_encodings :: "string list" where
  "space_encodings =
     [[CHR 0x09], [CHR 0x0A], [CHR 0x0B], [CHR 0x0C], [CHR 0x0D], [CHR 0x20],
      [CHR 0xC2, CHR 0x85], [CHR 0xC2, CHR 0xA0], [CHR 0xE1, CHR 0x9A, CHR 0x80],
      [CHR 0xE2, CHR 0x80, CHR 0x80], [CHR 0xE2, CHR 0x80, CHR 0x81],
      [CHR 0xE2, CHR 0x80, CHR 0x82], [CHR 0xE2, CHR 0x80, CHR 0x83],
      [CHR 0xE2, CHR 0x80, CHR 0x84], [CHR 0xE2, CHR 0x80, CHR 0x85],
      [CHR 0xE2, CHR 0x80, CHR 0x86], [CHR 0xE2, CHR 0x80, CHR 0x87],
      [CHR 0xE2, CHR 0x80, CHR 0x88], [CHR 0xE2, CHR 0x80, CHR 0x89],
      [CHR 0xE2, CHR 0x80, CHR 0x8A], [CHR 0xE2, CHR 0x80, CHR 0xA8],
      [CHR 0xE2, CHR 0x80, CHR 0xA9], [CHR 0xE2, CHR 0x80, CHR 0xAF],
      [CHR 0xE2, CHR 0x81, CHR 0x9F], [CHR 0xE3, CHR 0x80, CHR 0x80]]"

definition leading_space :: "string \<Rightarrow> nat" where
  "leading_space s =
     (case find (\<lambda>e. prefix e s) space_encodings of Some e \<Rightarrow> length e | None \<Rightarrow> 0)"

definition trailing_space :: "string \<Rightarrow> nat" where
  "trailing_space s =
     (case find (\<lambda>e. suffix e s) space_encodings of Some e \<Rightarrow> length e | None \<Rightarrow> 0)"

lemma leading_space_Nil: "leading_space [] = 0"
  by (simp add: leading_space_def space_encodings_def)

lemma trailing_space_Nil: "trailing_space [] = 0"
  by (simp add: trailing_space_def space_encodings_def)

function TrimLeftSpace :: "string \<Rightarrow> string" where
  "TrimLeftSpace s =
     (if leading_space s = 0 then s else TrimLeftSpace (drop (leading_space s) s))"
  by pat_completeness auto
termination
proof (relation "measure length")
  fix s :: string
  assume "leading_space s \<noteq> 0"
  then have "s \<noteq> []" using leading_space_Nil by auto
  with \<open>leading_space s \<noteq> 0\<close> show "(drop (leading_space s) s, s) \<in> measure length"
    by simp
qed simp

function TrimRightSpace :: "string \<Rightarrow> string" where
  "TrimRightSpace s =
     (if trailing_space s = 0 then s
      else TrimRightSpace (take (length s - trailing_space s) s))"
  by pat_completeness auto
termination
proof (relation "measure length")
  fix s :: string
  assume "trailing_space s \<noteq> 0"
  then have "s \<noteq> []" using trailing_space_Nil by auto
  with \<open>trailing_space s \<noteq> 0\<close>
  show "(take (length s - trailing_space s) s, s) \<in> measure length"
    by simp
qed simp

declare TrimLeftSpace.simps [simp del] TrimRightSpace.simps [simp del]

definition TrimSpace :: "string \<Rightarrow> string" where
  "TrimSpace s = TrimRightSpace (TrimLeftSpace s)"

text \<open>\<^verbatim>\<open>strings.ToUpper\<close> and \<^verbatim>\<open>strings.ToLower\<close>: bytewise on an ASCII string, the
  Unicode mapping of the library otherwise.\<close>

definition upper_byte :: "char \<Rightarrow> char" where
  "upper_byte c =
     (if c \<in> set ''abcdefghijklmnopqrstuvwxyz'' then char_of (of_char c - (32::nat)) else c)"

definition lower_byte :: "char \<Rightarrow> char" where
  "lower_byte c =
     (if c \<in> set ''ABCDEFGHIJKLMNOPQRSTUVWXYZ'' then char_of (of_char c + (32::nat)) else c)"

definition isASCII :: "string \<Rightarrow> bool" where
  "isASCII s = list_all (\<lambda>c. (of_char c :: nat) < 128) s"

definition ToUpper :: "stdlib \<Rightarrow> string \<Rightarrow> string" where
  "ToUpper lib s = (if isASCII s then map upper_byte s else unicode_ToUpper lib s)"

definition ToLower :: "stdlib \<Rightarrow> string \<Rightarrow> string" where
  "ToLower lib s = (if isASCII s then map lower_byte s else unicode_ToLower lib s)"

text \<open>\<^verbatim>\<open>strings.Replace(s, old, new, 1)\<close>: the first occurrence of \<open>old\<close> is replaced.\<close>

fun Replace1 :: "string \<Rightarrow> string \<Rightarrow> string \<Rightarrow> string" where
  "Replace1 [] old new = (if old = [] then new else [])"
| "Replace1 (c # cs) old new =
     (if prefix old (c # cs) then new @ drop (length old) (c # cs)
      else c # Replace1 cs old new)"

text \<open>
  The regular expression \<^verbatim>\<open>#(.*?);\<close>. \<open>scan cs\<close> tries to complete a match whose
  \<^verbatim>\<open>#\<close> has just been read: the shortest run of characters other than a line feed
  (which \<^verbatim>\<open>.\<close> does not match) up to a semicolon; it returns the run and what follows
  the semicolon. \<open>FindAllString\<close> is \<^verbatim>\<open>re.FindAllString(s, -1)\<close>: the leftmost match,
  then the matches of the rest. The three delimiters are ASCII, so matching bytes and
  matching UTF-8 runes find the same matches.
\<close>

fun scan :: "string \<Rightarrow> (string \<times> string) option" where
  "scan [] = None"
| "scan (c # cs) =
     (if c = CHR '';'' then Some ([], cs)
      else if c = CHR 0x0A then None
      else (case scan cs of None \<Rightarrow> None | Some (b, r) \<Rightarrow> Some (c # b, r)))"

lemma scan_length: "scan cs = Some (b, r) \<Longrightarrow> length r < length cs"
  by (induction cs arbitrary: b) (auto split: if_splits option.splits)

function FindAllString :: "string \<Rightarrow> string list" where
  "FindAllString [] = []"
| "FindAllString (c # cs) =
     (if c = CHR ''#'' then
        (case scan cs of
           Some (b, r) \<Rightarrow> (c # b @ '';'') # FindAllString r
         | None \<Rightarrow> FindAllString cs)
      else FindAllString cs)"
  by pat_completeness auto
termination
  by (relation "measure length") (auto dest: scan_length)

subsection \<open>Configuration and options\<close>

record config =
  withoutBackground :: bool
  selectedTheme :: "string option"
  forcePartV :: "string \<rightharpoonup> string"
  allowedVersions :: "string \<rightharpoonup> string list"
  partTheme :: "string \<rightharpoonup> string"
  allowedThemes :: "string \<rightharpoonup> string list"
  disabledParts :: "string \<rightharpoonup> bool"
  overrideColors :: "string \<rightharpoonup> string list"

text \<open>\<^verbatim>\<open>&config{}\<close>: every field has its zero value. A nil map and an empty map read alike,
  so the \<^verbatim>\<open>make\<close> calls of the options and of \<^verbatim>\<open>Generate\<close> leave the model unchanged.\<close>

definition zero_config :: config where
  "zero_config =
     \<lparr>withoutBackground = False, selectedTheme = None, forcePartV = Map.empty,
      allowedVersions = Map.empty, partTheme = Map.empty, allowedThemes = Map.empty,
      disabledParts = Map.empty, overrideColors = Map.empty\<rparr>"

definition partNames :: "string list" where
  "partNames = [''env'', ''clo'', ''head'', ''mouth'', ''eyes'', ''top'']"

text \<open>The guard \<^verbatim>\<open>switch pn { case "env", "clo", "head", "mouth", "eyes", "top": ... }\<close>.\<close>

definition known_part :: "string \<Rightarrow> bool" where
  "known_part pn = (pn \<in> set [''env'', ''clo'', ''head'', ''mouth'', ''eyes'', ''top''])"

definition theme_letter :: "string \<Rightarrow> bool" where
  "theme_letter t = (t = ''A'' \<or> t = ''B'' \<or> t = ''C'')"

text \<open>
  An \<^verbatim>\<open>Option\<close> is a closure \<^verbatim>\<open>func(*config)\<close>; outside the package only the
  constructors below can build one. A value of the datatype is such a closure with the
  arguments it captured, and \<open>apply_option\<close> runs its body on a configuration.
\<close>

datatype Option =
    WithTheme string
  | WithPartVersion string string
  | WithPartColors string "string list"
  | WithPartTheme string string
  | WithAllowedThemes string "string list"
  | WithoutPart string
  | WithAllowedVersions string "string list"
  | WithGender string
  | WithoutBackground

definition female_words :: "string list" where
  "female_words = [''female'', ''woman'', ''girl'', ''f'', [CHR 0xE2, CHR 0x99, CHR 0x80]]"

definition male_words :: "string list" where
  "male_words = [''male'', ''man'', ''boy'', ''m'', [CHR 0xE2, CHR 0x99, CHR 0x82]]"

fun apply_option :: "stdlib \<Rightarrow> Option \<Rightarrow> config \<Rightarrow> config" where
  "apply_option lib (WithTheme theme) c =
     (let t = ToUpper lib (TrimSpace theme) in
      if t = ''A'' \<or> t = ''B'' \<or> t = ''C'' then c\<lparr>selectedTheme := Some t\<rparr> else c)"
| "apply_option lib (WithPartVersion partName partVersion) c =
     (let pn = TrimSpace partName; pv = TrimSpace partVersion in
      if known_part pn then
        (if length pv = 2 then c\<lparr>forcePartV := (forcePartV c)(pn \<mapsto> pv)\<rparr> else c)
      else c)"
| "apply_option lib (WithPartColors partName colors) c =
     (let pn = TrimSpace partName in
      if known_part pn then c\<lparr>overrideColors := (overrideColors c)(pn \<mapsto> map TrimSpace colors)\<rparr>
      else c)"
| "apply_option lib (WithPartTheme partName theme) c =
     (let pn = TrimSpace partName; t = ToUpper lib (TrimSpace theme) in
      if known_part pn then
        (if t = ''A'' \<or> t = ''B'' \<or> t = ''C'' then c\<lparr>partTheme := (partTheme c)(pn \<mapsto> t)\<rparr> else c)
      else c)"
| "apply_option lib (WithAllowedThemes partName themesList) c =
     (let pn = TrimSpace partName in
      if known_part pn then
        (let tl = filter (\<lambda>tu. tu = ''A'' \<or> tu = ''B'' \<or> tu = ''C'')
                    (map (\<lambda>t. ToUpper lib (TrimSpace t)) themesList) in
         if length tl > 0 then c\<lparr>allowedThemes := (allowedThemes c)(pn \<mapsto> tl)\<rparr> else c)
      else c)"
| "apply_option lib (WithoutPart partName) c =
     (let pn = TrimSpace partName in
      if known_part pn then c\<lparr>disabledParts := (disabledParts c)(pn \<mapsto> True)\<rparr> else c)"
| "apply_option lib (WithAllowedVersions partName versions) c =
     (let pn = TrimSpace partName in
      if known_part pn then
        (let vlist = filter (\<lambda>v. length v = 2) (map TrimSpace versions) in
         if length vlist > 0 then c\<lparr>allowedVersions := (allowedVersions c)(pn \<mapsto> vlist)\<rparr> else c)
      else c)"
| "apply_option lib (WithGender gender) c =
     (let g = ToLower lib (TrimSpace gender) in
      if g \<in> set female_words then
        c\<lparr>allowedVersions := (allowedVersions c)
              (''top'' \<mapsto> [''01'', ''03'', ''07'', ''10''], ''eyes'' \<mapsto> [''03'', ''11'']),
          allowedThemes := (allowedThemes c)(''top'' \<mapsto> [''A'', ''C'']),
          partTheme := (partTheme c)(''top'' \<mapsto> ''C'', ''eyes'' \<mapsto> ''C'')\<rparr>
      else if g \<in> set male_words then
        c\<lparr>allowedVersions := (allowedVersions c)
              (''top'' \<mapsto> [''04'', ''05'', ''14''], ''eyes'' \<mapsto> [''09'', ''10'']),
          allowedThemes := (allowedThemes c)(''top'' \<mapsto> [''A'', ''B'']),
          partTheme := (partTheme c)(''top'' \<mapsto> ''B'', ''eyes'' \<mapsto> ''B'')\<rparr>
      else
        c\<lparr>allowedVersions := (allowedVersions c)
              (''top'' \<mapsto> [''01'', ''03'', ''04'', ''05'', ''07'', ''10'', ''14''],
               ''eyes'' \<mapsto> [''03'', ''09'', ''10'', ''11'']),
          allowedThemes := (allowedThemes c)(''top'' \<mapsto> [''A'', ''B'', ''C''])\<rparr>)"
| "apply_option lib WithoutBackground c = c\<lparr>withoutBackground := True\<rparr>"

text \<open>The convenience constructors.\<close>

definition WithSkinColor :: "string \<Rightarrow> Option" where
  "WithSkinColor hex = WithPartColors ''head'' [TrimSpace hex]"

definition WithEyesColors :: "string list \<Rightarrow> Option" where
  "WithEyesColors colors = WithPartColors ''eyes'' colors"

definition WithTopColors :: "string list \<Rightarrow> Option" where
  "WithTopColors colors = WithPartColors ''top'' colors"

definition WithEnvColor :: "string \<Rightarrow> Option" where
  "WithEnvColor hex = WithPartColors ''env'' [TrimSpace hex]"

definition WithClothesColors :: "string list \<Rightarrow> Option" where
  "WithClothesColors colors = WithPartColors ''clo'' colors"

definition WithMouthColors :: "string list \<Rightarrow> Option" where
  "WithMouthColors colors = WithPartColors ''mouth'' colors"

definition WithAllowedHeadVersions :: "string list \<Rightarrow> Option" where
  "WithAllowedHeadVersions versions = WithAllowedVersions ''head'' versions"

definition WithAllowedEyesVersions :: "string list \<Rightarrow> Option" where
  "WithAllowedEyesVersions versions = WithAllowedVersions ''eyes'' versions"

definition WithAllowedTopVersions :: "string list \<Rightarrow> Option" where
  "WithAllowedTopVersions versions = WithAllowedVersions ''top'' versions"

text \<open>The loop \<^verbatim>\<open>for _, opt := range opts { opt(cfg) }\<close> on \<^verbatim>\<open>&config{}\<close>.\<close>

definition apply_options :: "stdlib \<Rightarrow> Option list \<Rightarrow> config" where
  "apply_options lib opts = foldl (\<lambda>c opt. apply_option lib opt c) zero_config opts"

subsection \<open>Seed extraction\<close>

text \<open>Steps 1 to 3 of \<^verbatim>\<open>Generate\<close>: the hexadecimal digest, the regular expression
  \<^verbatim>\<open>[^0-9]\<close> replaced by the empty string, and the cut to 12 bytes when there are more.\<close>

definition hexHash :: "stdlib \<Rightarrow> string \<Rightarrow> string" where
  "hexHash lib input = EncodeToString (Sum256 lib input)"

definition sha256Numbers :: "stdlib \<Rightarrow> string \<Rightarrow> string" where
  "sha256Numbers lib input = filter (\<lambda>c. c \<in> set digit_chars) (hexHash lib input)"

definition hashStr :: "stdlib \<Rightarrow> string \<Rightarrow> string" where
  "hashStr lib input =
     (if length (sha256Numbers lib input) > 12 then take 12 (sha256Numbers lib input)
      else sha256Numbers lib input)"

text \<open>Step 4a for the part of index \<open>i\<close>: the slice expression \<^verbatim>\<open>hashStr[i*2 : i*2+2]\<close>
  panics when the string is shorter than \<open>i*2+2\<close>; otherwise the two bytes are parsed.\<close>

definition raw_value :: "string \<Rightarrow> nat \<Rightarrow> error + int" where
  "raw_value hs i =
     (if length hs < i * 2 + 2 then Inl SliceBoundsOutOfRange
      else Inr (atoi_or_zero (take 2 (drop (i * 2) hs))))"

subsection \<open>Feature resolution\<close>

text \<open>
  \<^verbatim>\<open>math.Round\<close> rounds to the nearest integer, halves away from zero. The model computes
  \<^verbatim>\<open>float64(val) * 47 / 100\<close> in exact rationals. For the values the program passes
  (two decimal digits) the product is exact in binary floating point, the quotient is
  either exactly a half-integer (at \<open>val = 50\<close>, where \<open>23.5\<close> is representable) or at least
  \<open>1/100\<close> away from one, and the rounding error of the division is far below that, so the
  rounded integers agree (lemmas \<open>tie_only_at_50\<close> and \<open>round_half_away_stable\<close> below).
\<close>

definition round_half_away :: "rat \<Rightarrow> int" where
  "round_half_away x = (if 0 \<le> x then \<lfloor>x + 1 / 2\<rfloor> else \<lceil>x - 1 / 2\<rceil>)"

definition scale_nr :: "int \<Rightarrow> int" where
  "scale_nr val = round_half_away (of_int val * 47 / 100)"

definition default_part :: "int \<Rightarrow> string \<times> string" where
  "default_part nr =
     (if nr > 31 then (Sprintf_02d (nr - 32), ''C'')
      else if nr > 15 then (Sprintf_02d (nr - 16), ''B'')
      else (Sprintf_02d nr, ''A''))"

text \<open>Go's \<^verbatim>\<open>%\<close> truncates towards zero; an index expression panics out of range.\<close>

definition go_rem :: "int \<Rightarrow> int \<Rightarrow> int" where
  "go_rem a b = sgn a * (\<bar>a\<bar> mod \<bar>b\<bar>)"

definition index_or_panic :: "'a list \<Rightarrow> int \<Rightarrow> error + 'a" where
  "index_or_panic xs i =
     (if 0 \<le> i \<and> i < int (length xs) then Inr (xs ! nat i) else Inl IndexOutOfRange)"

definition resolve_theme :: "config \<Rightarrow> string \<Rightarrow> int \<Rightarrow> string \<Rightarrow> error + string" where
  "resolve_theme cfg name val theme0 =
     (let theme = (case selectedTheme cfg of Some t \<Rightarrow> t | None \<Rightarrow> theme0) in
      case partTheme cfg name of
        Some pt \<Rightarrow> Inr pt
      | None \<Rightarrow>
          (case allowedThemes cfg name of
             Some allowedT \<Rightarrow>
               if length allowedT > 0
               then index_or_panic allowedT (go_rem val (int (length allowedT)))
               else Inr theme
           | None \<Rightarrow> Inr theme))"

definition resolve_version :: "config \<Rightarrow> string \<Rightarrow> int \<Rightarrow> string \<Rightarrow> error + string" where
  "resolve_version cfg name val partV0 =
     (let fallback =
        (case allowedVersions cfg name of
           Some allowed \<Rightarrow>
             if length allowed > 0
             then index_or_panic allowed (go_rem val (int (length allowed)))
             else Inr partV0
         | None \<Rightarrow> Inr partV0)
      in case forcePartV cfg name of
           Some forced \<Rightarrow> if length forced = 2 then Inr forced else fallback
         | None \<Rightarrow> fallback)"

text \<open>Steps 4b and 4c and the overrides: the final (version, theme) pair of a part whose
  raw value is \<open>val\<close>.\<close>

definition resolve_part :: "config \<Rightarrow> string \<Rightarrow> int \<Rightarrow> error + (string \<times> string)" where
  "resolve_part cfg name val =
     (case default_part (scale_nr val) of
        (partV0, theme0) \<Rightarrow>
          (case resolve_theme cfg name val theme0 of
             Inl e \<Rightarrow> Inl e
           | Inr theme \<Rightarrow>
               (case resolve_version cfg name val partV0 of
                  Inl e \<Rightarrow> Inl e
                | Inr partV \<Rightarrow> Inr (partV, theme))))"

subsection \<open>Rendering a part\<close>

fun replace_loop :: "nat \<Rightarrow> string list \<Rightarrow> string list \<Rightarrow> string \<Rightarrow> string" where
  "replace_loop i [] colors resultFinal = resultFinal"
| "replace_loop i (placeholder # matches) colors resultFinal =
     replace_loop (Suc i) matches colors
       (if i < length colors then Replace1 resultFinal placeholder (colors ! i @ '';'')
        else resultFinal)"

text \<open>The tail of \<^verbatim>\<open>getFinalPartWithOverride\<close> and of \<^verbatim>\<open>getFinalPart\<close>: the
  placeholders of the template are found first, then replaced one by one in the result.\<close>

definition fill_template :: "string \<Rightarrow> string list \<Rightarrow> string" where
  "fill_template svgString colors = replace_loop 0 (FindAllString svgString) colors svgString"

definition partIndex :: "string \<Rightarrow> nat" where
  "partIndex partName =
     (case map_of [(''env'', 0), (''clo'', 1), (''head'', 2), (''mouth'', 3), (''eyes'', 4),
                   (''top'', 5)] partName of
        Some i \<Rightarrow> i
      | None \<Rightarrow> 0)"

definition getFinalPartWithOverride ::
  "catalog \<Rightarrow> string \<Rightarrow> string \<Rightarrow> string \<Rightarrow> string list \<Rightarrow> error + string" where
  "getFinalPartWithOverride cat partName partV theme override =
     (case themes cat partV theme partName of
        None \<Rightarrow> Inr []
      | Some catalogColors \<Rightarrow>
          (let colors = (if length override > 0 then override else catalogColors);
               partID = atoi_or_zero partV
           in case parts cat partID (partIndex partName) of
                None \<Rightarrow> Inl IndexOutOfRange
              | Some svgString \<Rightarrow> Inr (fill_template svgString colors)))"

text \<open>\<^verbatim>\<open>getFinalPart\<close> of the earlier version of the file has no override argument.\<close>

definition getFinalPart :: "catalog \<Rightarrow> string \<Rightarrow> string \<Rightarrow> string \<Rightarrow> error + string" where
  "getFinalPart cat partName partV theme =
     (case themes cat partV theme partName of
        None \<Rightarrow> Inr []
      | Some colors \<Rightarrow>
          (case parts cat (atoi_or_zero partV) (partIndex partName) of
             None \<Rightarrow> Inl IndexOutOfRange
           | Some svgString \<Rightarrow> Inr (fill_template svgString colors)))"

text \<open>\<^verbatim>\<open>cfg.overrideColors[name]\<close> is nil for a missing key; nil and the empty slice fail
  the test \<^verbatim>\<open>override != nil && len(override) > 0\<close> alike.\<close>

definition override_of :: "config \<Rightarrow> string \<Rightarrow> string list" where
  "override_of cfg name = (case overrideColors cfg name of Some l \<Rightarrow> l | None \<Rightarrow> [])"

text \<open>The body of the loop over the parts, after the raw value is known.\<close>

definition render_part :: "catalog \<Rightarrow> config \<Rightarrow> string \<Rightarrow> int \<Rightarrow> error + string" where
  "render_part cat cfg name val =
     (case resolve_part cfg name val of
        Inl e \<Rightarrow> Inl e
      | Inr (partV, theme) \<Rightarrow>
          getFinalPartWithOverride cat name partV theme (override_of cfg name))"

fun parts_loop ::
  "catalog \<Rightarrow> config \<Rightarrow> string \<Rightarrow> nat \<Rightarrow> string list \<Rightarrow> (string \<rightharpoonup> string) \<Rightarrow>
   error + (string \<rightharpoonup> string)" where
  "parts_loop cat cfg hs i [] selectedParts = Inr selectedParts"
| "parts_loop cat cfg hs i (name # names) selectedParts =
     (case raw_value hs i of
        Inl e \<Rightarrow> Inl e
      | Inr val \<Rightarrow>
          (case render_part cat cfg name val of
             Inl e \<Rightarrow> Inl e
           | Inr part \<Rightarrow> parts_loop cat cfg hs (Suc i) names (selectedParts(name \<mapsto> part))))"

subsection \<open>Assembly\<close>

definition svgStart :: "string" where
  "svgStart =
     ''<svg xmlns='' @ [CHR 0x22] @ ''http://www.w3.org/2000/svg'' @ [CHR 0x22] @
     '' viewBox='' @ [CHR 0x22] @ ''0 0 231 231'' @ [CHR 0x22] @ ''>''"

definition svgEnd :: "string" where
  "svgEnd = ''</svg>''"

definition disabled :: "config \<Rightarrow> string \<Rightarrow> bool" where
  "disabled cfg name = (case disabledParts cfg name of Some b \<Rightarrow> b | None \<Rightarrow> False)"

definition selected :: "(string \<rightharpoonup> string) \<Rightarrow> string \<Rightarrow> string" where
  "selected selectedParts name = (case selectedParts name of Some part \<Rightarrow> part | None \<Rightarrow> [])"

definition assemble :: "config \<Rightarrow> (string \<rightharpoonup> string) \<Rightarrow> string" where
  "assemble cfg selectedParts =
     svgStart
     @ (if \<not> withoutBackground cfg \<and> \<not> disabled cfg ''env''
        then selected selectedParts ''env'' else [])
     @ (if \<not> disabled cfg ''head'' then selected selectedParts ''head'' else [])
     @ (if \<not> disabled cfg ''clo'' then selected selectedParts ''clo'' else [])
     @ (if \<not> disabled cfg ''top'' then selected selectedParts ''top'' else [])
     @ (if \<not> disabled cfg ''eyes'' then selected selectedParts ''eyes'' else [])
     @ (if \<not> disabled cfg ''mouth'' then selected selectedParts ''mouth'' else [])
     @ svgEnd"

definition Generate :: "stdlib \<Rightarrow> catalog \<Rightarrow> string \<Rightarrow> Option list \<Rightarrow> error + string" where
  "Generate lib cat input opts =
     (let cfg = apply_options lib opts in
      if input = [] then Inr []
      else (case parts_loop cat cfg (hashStr lib input) 0 partNames Map.empty of
              Inl e \<Rightarrow> Inl e
            | Inr selectedParts \<Rightarrow> Inr (assemble cfg selectedParts)))"

section \<open>The seed-derived default selection\<close>

text \<open>The band split in the words of the specification: the version number within the
  band, the theme letter of the band, and a number written with exactly two digits.\<close>

definition band_version :: "int \<Rightarrow> int" where
  "band_version nr = (if nr > 31 then nr - 32 else if nr > 15 then nr - 16 else nr)"

definition band_theme :: "int \<Rightarrow> string" where
  "band_theme nr = (if nr > 31 then ''C'' else if nr > 15 then ''B'' else ''A'')"

definition two_digits :: "int \<Rightarrow> string" where
  "two_digits n = [digit_chars ! nat (n div 10), digit_chars ! nat (n mod 10)]"

lemma scale_nr_nonneg: "0 \<le> v \<Longrightarrow> scale_nr v = (47 * v + 50) div 100"
proof -
  assume v: "0 \<le> v"
  have "(of_int v * 47 / 100 + 1 / 2 :: rat) = of_int (47 * v + 50) / of_int 100"
    by (simp add: field_simps)
  then have "\<lfloor>of_int v * 47 / 100 + 1 / 2 :: rat\<rfloor> = (47 * v + 50) div 100"
    by (simp only: floor_divide_of_int_eq)
  with v show ?thesis by (simp add: scale_nr_def round_half_away_def)
qed

lemma decimal_one_digit: "n < 10 \<Longrightarrow> decimal n = [digit_chars ! n]"
  by (simp add: decimal.simps)

lemma decimal_two_digits:
  "10 \<le> n \<Longrightarrow> n < 100 \<Longrightarrow> decimal n = [digit_chars ! (n div 10), digit_chars ! (n mod 10)]"
  using decimal.simps [of n] by (simp add: decimal_one_digit)

lemma Sprintf_02d_two_digits:
  assumes "0 \<le> n" "n < 100"
  shows "Sprintf_02d n = [digit_chars ! nat (n div 10), digit_chars ! nat (n mod 10)]"
proof (cases "n < 10")
  case True
  with assms have "decimal (nat n) = [digit_chars ! nat n]" by (simp add: decimal_one_digit)
  moreover from True assms have "n div 10 = 0" "n mod 10 = n" by simp_all
  ultimately show ?thesis using assms by (simp add: Sprintf_02d_def digit_chars_def)
next
  case False
  with assms have "decimal (nat n) = [digit_chars ! (nat n div 10), digit_chars ! (nat n mod 10)]"
    by (simp add: decimal_two_digits)
  moreover from assms have "nat n div 10 = nat (n div 10)" "nat n mod 10 = nat (n mod 10)"
    by (simp_all add: nat_div_distrib nat_mod_distrib)
  ultimately show ?thesis using assms by (simp add: Sprintf_02d_def)
qed

lemma scale_nr_nearest:
  assumes "0 \<le> v"
  shows "\<bar>100 * scale_nr v - 47 * v\<bar> \<le> 50"
    and "\<bar>100 * scale_nr v - 47 * v\<bar> = 50 \<Longrightarrow> 47 * v < 100 * scale_nr v"
proof -
  define q where "q = (47 * v + 50) div 100"
  define r where "r = (47 * v + 50) mod 100"
  have "47 * v + 50 = 100 * q + r" "0 \<le> r" "r < 100"
    by (simp_all add: q_def r_def)
  moreover have "scale_nr v = q"
    using assms by (simp add: scale_nr_nonneg q_def)
  ultimately show "\<bar>100 * scale_nr v - 47 * v\<bar> \<le> 50"
    and "\<bar>100 * scale_nr v - 47 * v\<bar> = 50 \<Longrightarrow> 47 * v < 100 * scale_nr v"
    by linarith+
qed

lemma scale_nr_range:
  assumes "0 \<le> v" "v \<le> 99"
  shows "0 \<le> scale_nr v" and "scale_nr v \<le> 47"
proof -
  define q where "q = (47 * v + 50) div 100"
  define r where "r = (47 * v + 50) mod 100"
  have "47 * v + 50 = 100 * q + r" "0 \<le> r" "r < 100"
    by (simp_all add: q_def r_def)
  moreover have "scale_nr v = q"
    using assms by (simp add: scale_nr_nonneg q_def)
  ultimately show "0 \<le> scale_nr v" and "scale_nr v \<le> 47"
    using assms by linarith+
qed

text \<open>
  The step from binary floating point to exact rationals, made precise: the exact quotient
  is a half-integer only at \<open>v = 50\<close> (where \<open>23.5\<close> is a floating-point number), and for
  every other \<open>v\<close> any number within \<open>1/100\<close> of the exact quotient rounds to the same
  integer, so the rounding error of the floating-point division cannot change the result.
\<close>

lemma tie_only_at_50:
  fixes v :: int
  assumes "0 \<le> v" "v \<le> 99"
  shows "(47 * v + 50) mod 100 = 0 \<longleftrightarrow> v = 50"
proof
  assume "(47 * v + 50) mod 100 = 0"
  then have "100 dvd 47 * v + 50" by (simp add: dvd_eq_mod_eq_0)
  then have "100 dvd 83 * (47 * v + 50)" by (rule dvd_mult)
  moreover have "83 * (47 * v + 50) = 100 * (39 * v + 41) + (v + 50)" by simp
  ultimately have "100 dvd 100 * (39 * v + 41) + (v + 50)" by simp
  then have "100 dvd v + 50" by (simp only: dvd_add_right_iff dvd_triv_left)
  then obtain k where k: "v + 50 = 100 * k" by (auto simp: dvd_def)
  with assms have "0 < k" "k < 2" by linarith+
  then have "k = 1" by simp
  with k show "v = 50" by simp
next
  assume "v = 50"
  then show "(47 * v + 50) mod 100 = 0" by simp
qed

lemma round_half_away_stable:
  assumes "0 \<le> v" "(47 * v + 50) mod 100 \<noteq> 0" "\<bar>x - of_int v * 47 / 100\<bar> < 1 / 100"
  shows "round_half_away x = scale_nr v"
proof -
  define q where "q = (47 * v + 50) div 100"
  define r where "r = (47 * v + 50) mod 100"
  have d: "47 * v + 50 = 100 * q + r"
    by (simp add: q_def r_def)
  have "0 \<le> r" "r < 100" by (simp_all add: r_def)
  moreover have "r \<noteq> 0" using assms(2) by (simp add: r_def)
  ultimately have r: "1 \<le> r" "r \<le> 99" by linarith+
  define ex :: rat where "ex = of_int v * 47 / 100"
  from d have "(of_int (47 * v + 50) :: rat) = of_int (100 * q + r)" by simp
  then have e: "100 * ex = 100 * of_int q + of_int r - 50"
    by (simp add: ex_def)
  have r1: "(1::rat) \<le> of_int r" using r(1) by simp
  have r2: "(of_int r :: rat) \<le> 99" using r(2) by simp
  have "\<bar>x - ex\<bar> < 1 / 100" using assms(3) by (simp only: ex_def)
  then have a: "100 * x - 100 * ex < 1" "100 * ex - 100 * x < 1" by linarith+
  from a e r1 r2 have b1: "of_int q - 1 / 2 < x" by linarith
  from a e r1 r2 have b2: "x < of_int q + 1 / 2" by linarith
  note b = b1 b2
  have "round_half_away x = q"
  proof (cases "0 \<le> x")
    case True
    have "\<lfloor>x + 1 / 2\<rfloor> = q" using b by (intro floor_unique) linarith+
    with True show ?thesis by (simp add: round_half_away_def)
  next
    case False
    have "\<lceil>x - 1 / 2\<rceil> = q" using b by (intro ceiling_unique) linarith+
    with False show ?thesis by (simp add: round_half_away_def)
  qed
  moreover have "scale_nr v = q"
    using assms(1) by (simp add: scale_nr_nonneg q_def)
  ultimately show ?thesis by simp
qed

text \<open>
  Claim C2. For a raw value \<open>v\<close> from 0 to 99 the scaled number \<open>scale_nr v\<close> lies between
  0 and 47 and is \<open>v * 47 / 100\<close> rounded to the nearest integer, a tie going away from
  zero: its distance from \<open>47 v / 100\<close> is at most one half, and where it is exactly one
  half the result is the larger neighbour. The default version is the number within the
  band (\<open>nr - 32\<close> above 31, \<open>nr - 16\<close> above 15, \<open>nr\<close> otherwise), between 0 and 15 and
  written with exactly two digits, and the default theme is C, B or A for the three bands.
\<close>

theorem default_selection:
  assumes "0 \<le> v" "v \<le> 99"
  shows "0 \<le> scale_nr v \<and> scale_nr v \<le> 47
       \<and> \<bar>100 * scale_nr v - 47 * v\<bar> \<le> 50
       \<and> (\<bar>100 * scale_nr v - 47 * v\<bar> = 50 \<longrightarrow> 47 * v < 100 * scale_nr v)
       \<and> 0 \<le> band_version (scale_nr v) \<and> band_version (scale_nr v) \<le> 15
       \<and> default_part (scale_nr v)
           = (two_digits (band_version (scale_nr v)), band_theme (scale_nr v))"
proof -
  note r = scale_nr_range [OF assms]
  note n = scale_nr_nearest [OF assms(1)]
  have b: "0 \<le> band_version (scale_nr v)" "band_version (scale_nr v) \<le> 15"
    using r by (auto simp: band_version_def)
  have "default_part (scale_nr v) = (Sprintf_02d (band_version (scale_nr v)), band_theme (scale_nr v))"
    by (simp add: default_part_def band_version_def band_theme_def)
  also have "Sprintf_02d (band_version (scale_nr v)) = two_digits (band_version (scale_nr v))"
    unfolding two_digits_def using b by (intro Sprintf_02d_two_digits) auto
  finally show ?thesis using r n b by blast
qed

lemma scale_nr_50: "scale_nr 50 = 24"
  by (simp add: scale_nr_nonneg)

theorem default_selection_witness:
  "scale_nr 50 = 24 \<and> \<bar>100 * scale_nr 50 - 47 * 50\<bar> = 50
   \<and> default_part (scale_nr 50) = (''08'', ''B'')"
  using default_selection [of 50]
  by (simp add: scale_nr_50 two_digits_def band_version_def band_theme_def digit_chars_def)


section \<open>Placeholder substitution\<close>

text \<open>
  What the specification asks of the renderer, as functions of their own.
  \<open>positional s cols\<close> scans the template as the regular expression does and gives the
  \<open>i\<close>-th match the \<open>i\<close>-th colour, followed by a semicolon; when the colours run out the
  rest of the template is kept as it is. \<open>after_tokens k s\<close> is what follows the \<open>k\<close>-th
  match of the template. \<open>contains s sub\<close> is \<^verbatim>\<open>strings.Contains\<close>, and
  \<open>no_collision toks cols\<close> says that no colour that is substituted, with its semicolon,
  contains the text of a later placeholder that is still to be replaced.
\<close>

function positional :: "string \<Rightarrow> string list \<Rightarrow> string" where
  "positional s [] = s"
| "positional [] (col # cols) = []"
| "positional (c # cs) (col # cols) =
     (if c = CHR ''#'' then
        (case scan cs of
           Some (b, r) \<Rightarrow> col @ '';'' @ positional r cols
         | None \<Rightarrow> c # positional cs (col # cols))
      else c # positional cs (col # cols))"
  by pat_completeness auto
termination
  by (relation "measure (\<lambda>(s, cols). length s)") (auto dest: scan_length)

function after_tokens :: "nat \<Rightarrow> string \<Rightarrow> string" where
  "after_tokens 0 s = s"
| "after_tokens (Suc k) [] = []"
| "after_tokens (Suc k) (c # cs) =
     (if c = CHR ''#'' then
        (case scan cs of
           Some (b, r) \<Rightarrow> after_tokens k r
         | None \<Rightarrow> after_tokens (Suc k) cs)
      else after_tokens (Suc k) cs)"
  by pat_completeness auto
termination
  by (relation "measure (\<lambda>(k, s). length s)") (auto dest: scan_length)

fun contains :: "string \<Rightarrow> string \<Rightarrow> bool" where
  "contains [] sub = (sub = [])"
| "contains (c # cs) sub = (prefix sub (c # cs) \<or> contains cs sub)"

fun no_collision :: "string list \<Rightarrow> string list \<Rightarrow> bool" where
  "no_collision [] cols = True"
| "no_collision (t # toks) [] = True"
| "no_collision (t # toks) (col # cols) =
     (list_all (\<lambda>t'. \<not> contains (col @ '';'') t') (take (length cols) toks) \<and> no_collision toks cols)"


subsection \<open>Matches and occurrences\<close>

text \<open>A match is \<^verbatim>\<open>#\<close>, a body without semicolon and line feed, and a semicolon.\<close>

definition delim_free :: "string \<Rightarrow> bool" where
  "delim_free b = (CHR '';'' \<notin> set b \<and> CHR 0x0A \<notin> set b)"

lemma scan_SomeD: "scan cs = Some (b, r) \<Longrightarrow> cs = b @ CHR '';'' # r \<and> delim_free b"
  by (induction cs arbitrary: b) (auto simp: delim_free_def split: if_splits option.splits)

lemma scan_token: "delim_free b \<Longrightarrow> scan (b @ CHR '';'' # r) = Some (b, r)"
  by (induction b) (auto simp: delim_free_def)

lemma scan_append:
  "scan (v @ s) =
     (case scan v of
        Some (b, r) \<Rightarrow> Some (b, r @ s)
      | None \<Rightarrow> if CHR 0x0A \<in> set v then None
                else (case scan s of None \<Rightarrow> None | Some (b, r) \<Rightarrow> Some (v @ b, r)))"
  by (induction v) (auto split: option.splits)

lemma scan_None_semicolon: "scan v = None \<Longrightarrow> CHR '';'' \<in> set v \<Longrightarrow> CHR 0x0A \<in> set v"
  by (induction v) (auto split: if_splits option.splits)

lemma prefix_token_iff:
  assumes "delim_free b"
  shows "prefix (CHR ''#'' # b @ '';'') (x # xs) \<longleftrightarrow> x = CHR ''#'' \<and> (\<exists>r. scan xs = Some (b, r))"
proof -
  have "prefix (b @ '';'') xs \<longleftrightarrow> (\<exists>r. scan xs = Some (b, r))"
  proof
    assume "prefix (b @ '';'') xs"
    then obtain r where "xs = (b @ '';'') @ r" by (auto simp: prefix_def)
    then have "xs = b @ CHR '';'' # r" by simp
    with assms show "\<exists>r. scan xs = Some (b, r)" using scan_token by blast
  next
    assume "\<exists>r. scan xs = Some (b, r)"
    then obtain r where "scan xs = Some (b, r)" by blast
    then have "xs = b @ CHR '';'' # r" using scan_SomeD by blast
    then show "prefix (b @ '';'') xs" by (simp add: prefix_def)
  qed
  then show ?thesis by auto
qed

text \<open>
  The invariant of the replacement loop. The current result is \<open>d @ s\<close>: \<open>d\<close> is done (text
  copied from the template and colours already substituted), \<open>s\<close> is the rest of the template.
  \<open>settled d s\<close>: a match attempt that starts at a \<^verbatim>\<open>#\<close> of \<open>d\<close> either ends inside \<open>d\<close>
  or fails in \<open>d @ s\<close>, so no match straddles the border. \<open>occ_in d e t\<close>: the text \<open>t\<close>
  occurs in \<open>d @ e\<close> at a position inside \<open>d\<close>.
\<close>

fun settled :: "string \<Rightarrow> string \<Rightarrow> bool" where
  "settled [] s = True"
| "settled (x # d) s =
     ((x = CHR ''#'' \<longrightarrow> scan (d @ s) = None \<or> scan d \<noteq> None) \<and> settled d s)"

fun occ_in :: "string \<Rightarrow> string \<Rightarrow> string \<Rightarrow> bool" where
  "occ_in [] e t = False"
| "occ_in (x # d) e t = (prefix t (x # d @ e) \<or> occ_in d e t)"

definition token :: "string \<Rightarrow> bool" where
  "token t = (\<exists>b. t = CHR ''#'' # b @ '';'' \<and> delim_free b)"

lemma Replace1_skip: "\<not> occ_in d s t \<Longrightarrow> Replace1 (d @ s) t n = d @ Replace1 s t n"
  by (induction d) auto

lemma contains_append: "contains (d @ e) t \<longleftrightarrow> occ_in d e t \<or> contains e t"
  by (induction d) auto

lemma occ_in_mono: "occ_in d e t \<Longrightarrow> occ_in d (e @ e') t"
proof (induction d)
  case Nil
  then show ?case by simp
next
  case (Cons x d)
  have "prefix t (x # d @ e) \<Longrightarrow> prefix t (x # d @ e @ e')"
    using prefix_prefix [of t "x # d @ e" e'] by simp
  with Cons show ?case by auto
qed

lemma token_not_short: "token t \<Longrightarrow> \<not> contains [c] t" "token t \<Longrightarrow> \<not> contains [] t"
  by (auto simp: token_def)

lemma no_occ_here:
  assumes "settled d s" "delim_free b" "\<not> contains d (CHR ''#'' # b @ '';'')"
  shows "\<not> occ_in d s (CHR ''#'' # b @ '';'')"
  using assms
proof (induction d)
  case Nil
  then show ?case by simp
next
  case (Cons x d)
  let ?t = "CHR ''#'' # b @ '';''"
  have "\<not> prefix ?t (x # d @ s)"
  proof
    assume "prefix ?t (x # d @ s)"
    then obtain r where x: "x = CHR ''#''" and sc: "scan (d @ s) = Some (b, r)"
      using prefix_token_iff [OF Cons.prems(2)] by blast
    with Cons.prems(1) obtain b' r' where sd: "scan d = Some (b', r')" by auto
    with sc have "b' = b" by (simp add: scan_append)
    with sd x have "prefix ?t (x # d)"
      using prefix_token_iff [OF Cons.prems(2), of x d] by blast
    with Cons.prems(3) show False by simp
  qed
  moreover have "\<not> occ_in d s ?t"
    using Cons by simp
  ultimately show ?case by simp
qed

lemma no_occ_anywhere:
  assumes "settled d s" "scan s \<noteq> None" "delim_free b" "\<not> contains d (CHR ''#'' # b @ '';'')"
  shows "\<not> occ_in d e (CHR ''#'' # b @ '';'')"
  using assms
proof (induction d)
  case Nil
  then show ?case by simp
next
  case (Cons x d)
  let ?t = "CHR ''#'' # b @ '';''"
  have "\<not> prefix ?t (x # d @ e)"
  proof
    assume "prefix ?t (x # d @ e)"
    then obtain r where x: "x = CHR ''#''" and sc: "scan (d @ e) = Some (b, r)"
      using prefix_token_iff [OF Cons.prems(3)] by blast
    show False
    proof (cases "scan d")
      case None
      with x Cons.prems(1) have "scan (d @ s) = None" by simp
      with None Cons.prems(2) have "CHR 0x0A \<in> set d"
        by (auto simp: scan_append split: if_splits option.splits)
      with None sc show False by (simp add: scan_append)
    next
      case (Some p)
      obtain b' r' where p: "p = (b', r')" by (cases p)
      with Some sc have "b' = b" by (simp add: scan_append)
      with Some p x have "prefix ?t (x # d)"
        using prefix_token_iff [OF Cons.prems(3), of x d] by blast
      with Cons.prems(4) show False by simp
    qed
  qed
  moreover have "\<not> occ_in d e ?t"
    using Cons by simp
  ultimately show ?case by simp
qed

lemma settled_snoc:
  "settled d (c # s) \<Longrightarrow> (c = CHR ''#'' \<longrightarrow> scan s = None) \<Longrightarrow> settled (d @ [c]) s"
proof (induction d)
  case Nil
  then show ?case by simp
next
  case (Cons x d)
  have "scan d \<noteq> None \<Longrightarrow> scan (d @ [c]) \<noteq> None"
    by (auto simp: scan_append split: option.splits)
  with Cons show ?case by auto
qed

lemma settled_closed: "settled (e @ '';'') r"
proof (induction e)
  case Nil
  then show ?case by simp
next
  case (Cons x e)
  have "scan (e @ '';'') = None \<Longrightarrow> scan ((e @ '';'') @ r) = None"
    using scan_None_semicolon [of "e @ '';''"] by (simp add: scan_append del: append_assoc)
  with Cons show ?case by (cases "scan (e @ '';'')") auto
qed

text \<open>The loop with the colours as a list that is consumed, in place of an index.\<close>

fun subst :: "string list \<Rightarrow> string list \<Rightarrow> string \<Rightarrow> string" where
  "subst [] cs r = r"
| "subst (t # ts) [] r = r"
| "subst (t # ts) (c # cs) r = subst ts cs (Replace1 r t (c @ '';''))"

lemma subst_Nil2: "subst ts [] r = r"
  by (cases ts) auto

lemma replace_loop_subst: "replace_loop i toks cols r = subst toks (drop i cols) r"
proof (induction toks arbitrary: i r)
  case Nil
  then show ?case by simp
next
  case (Cons t toks)
  show ?case
  proof (cases "i < length cols")
    case True
    then have "drop i cols = cols ! i # drop (Suc i) cols"
      by (simp add: Cons_nth_drop_Suc)
    with True Cons show ?thesis by simp
  next
    case False
    with Cons show ?thesis by (simp add: subst_Nil2)
  qed
qed

lemma FindAllString_token: "t \<in> set (FindAllString s) \<Longrightarrow> token t"
proof (induction s rule: FindAllString.induct)
  case 1
  then show ?case by simp
next
  case (2 c cs)
  then show ?case
    by (auto simp: token_def split: if_splits option.splits dest: scan_SomeD)
qed

lemma positional_Nil: "positional [] cs = []"
  by (cases cs) auto

lemma snoc_step:
  assumes st: "settled d (c # s)" and dead: "c = CHR ''#'' \<longrightarrow> scan s = None"
    and tok: "\<forall>t \<in> T. token t" and free: "\<forall>t \<in> T. \<not> contains d t"
  shows "settled (d @ [c]) s \<and> (\<forall>t \<in> T. \<not> contains (d @ [c]) t)"
proof
  show "settled (d @ [c]) s" using st dead by (rule settled_snoc)
  show "\<forall>t \<in> T. \<not> contains (d @ [c]) t"
  proof
    fix t assume t: "t \<in> T"
    with tok obtain b where b: "t = CHR ''#'' # b @ '';''" "delim_free b"
      by (auto simp: token_def)
    with free t st have "\<not> occ_in d (c # s) t"
      using no_occ_here by blast
    then have "\<not> occ_in d [c] t"
      using occ_in_mono [of d "[c]" t s] by auto
    moreover have "\<not> contains [c] t" using b by simp
    ultimately show "\<not> contains (d @ [c]) t" by (simp add: contains_append)
  qed
qed

text \<open>Under the invariant the loop computes the positional substitution.\<close>

lemma subst_positional:
  "settled d s \<Longrightarrow> no_collision (FindAllString s) cs \<Longrightarrow>
   \<forall>t \<in> set (take (length cs) (FindAllString s)). \<not> contains d t \<Longrightarrow>
   subst (FindAllString s) cs (d @ s) = d @ positional s cs"
proof (induction s arbitrary: d cs rule: FindAllString.induct)
  case 1
  then show ?case by (simp add: positional_Nil)
next
  case (2 c s)
  show ?case
  proof (cases cs)
    case Nil
    then show ?thesis by (simp add: subst_Nil2)
  next
    case (Cons col cs')
    let ?T = "set (take (length cs) (FindAllString (c # s)))"
    have tokT: "\<forall>t \<in> ?T. token t"
      using FindAllString_token in_set_takeD by fast
    consider (tok) b r where "c = CHR ''#''" "scan s = Some (b, r)"
      | (dead) "c = CHR ''#'' \<longrightarrow> scan s = None"
      by (cases "scan s") auto
    then show ?thesis
    proof cases
      case dead
      then have fa: "FindAllString (c # s) = FindAllString s" by auto
      from snoc_step [OF "2.prems"(1) dead tokT "2.prems"(3)]
      have st: "settled (d @ [c]) s" and fr: "\<forall>t \<in> ?T. \<not> contains (d @ [c]) t"
        by blast+
      have "subst (FindAllString s) cs ((d @ [c]) @ s) = (d @ [c]) @ positional s cs"
      proof (cases "c = CHR ''#''")
        case True
        with dead have "scan s = None" by simp
        from "2.IH"(1) [OF True this st] "2.prems"(2) fr fa show ?thesis by simp
      next
        case False
        from "2.IH"(3) [OF False st] "2.prems"(2) fr fa show ?thesis by simp
      qed
      moreover have "positional (c # s) cs = c # positional s cs"
        using dead Cons by auto
      ultimately show ?thesis using fa by simp
    next
      case tok
      let ?t = "CHR ''#'' # b @ '';''"
      from tok have s: "s = b @ CHR '';'' # r" and b: "delim_free b"
        using scan_SomeD by blast+
      from tok have fa: "FindAllString (c # s) = ?t # FindAllString r" by simp
      have scs: "scan (c # s) \<noteq> None"
        using tok by simp
      have "\<not> contains d ?t"
        using "2.prems"(3) fa Cons by simp
      then have "\<not> occ_in d (c # s) ?t"
        using no_occ_here [OF "2.prems"(1) b] by blast
      then have "Replace1 (d @ c # s) ?t (col @ '';'') = d @ Replace1 (c # s) ?t (col @ '';'')"
        by (rule Replace1_skip)
      also have "Replace1 (c # s) ?t (col @ '';'') = (col @ '';'') @ r"
        using tok s by simp
      finally have step: "Replace1 (d @ c # s) ?t (col @ '';'') = (d @ col @ '';'') @ r"
        by simp
      have st: "settled (d @ col @ '';'') r"
        using settled_closed [of "d @ col" r] by simp
      have sf: "no_collision (FindAllString r) cs'"
        using "2.prems"(2) fa Cons by simp
      have fr: "\<forall>t \<in> set (take (length cs') (FindAllString r)). \<not> contains (d @ col @ '';'') t"
      proof
        fix t assume t: "t \<in> set (take (length cs') (FindAllString r))"
        then have "token t" using FindAllString_token in_set_takeD by fast
        then obtain b' where b': "t = CHR ''#'' # b' @ '';''" "delim_free b'"
          by (auto simp: token_def)
        have "\<not> contains d t"
          using "2.prems"(3) fa Cons t by simp
        then have "\<not> occ_in d (col @ '';'') t"
          using no_occ_anywhere [OF "2.prems"(1) scs b'(2)] b'(1) by blast
        moreover have "\<not> contains (col @ '';'') t"
          using "2.prems"(2) fa Cons t by (simp add: list_all_iff)
        ultimately show "\<not> contains (d @ col @ '';'') t"
          by (simp add: contains_append)
      qed
      have "subst (FindAllString r) cs' ((d @ col @ '';'') @ r) = (d @ col @ '';'') @ positional r cs'"
        using "2.IH"(2) [OF tok(1) tok(2) refl st sf fr] .
      with step fa Cons tok show ?thesis by simp
    qed
  qed
qed

lemma replace_loop_positional:
  assumes "no_collision (FindAllString s) cols"
  shows "replace_loop 0 (FindAllString s) cols s = positional s cols"
proof -
  have "\<forall>t \<in> set (take (length cols) (FindAllString s)). \<not> contains [] t"
    using FindAllString_token in_set_takeD token_not_short(2) by fast
  with assms have "subst (FindAllString s) cols ([] @ s) = [] @ positional s cols"
    by (intro subst_positional) simp_all
  then show ?thesis by (simp add: replace_loop_subst)
qed

text \<open>With no proviso at all, a replacement never reaches beyond the match it was called
  for, so the template after the last replaced match stays as it is.\<close>

lemma Replace1_frame: "t \<noteq> [] \<Longrightarrow> \<exists>X'. Replace1 (X @ t @ rest) t n = X' @ rest"
proof (induction X)
  case Nil
  then show ?case by (cases t) auto
next
  case (Cons x X)
  then obtain X' where X': "Replace1 (X @ t @ rest) t n = X' @ rest" by blast
  show ?case
  proof (cases "prefix t (x # X @ t @ rest)")
    case True
    have "drop (length t) (x # X @ t @ rest) = drop (length t) (x # X @ t) @ rest"
      using drop_append [of "length t" "x # X @ t" rest] by simp
    with True show ?thesis by simp
  next
    case False
    with X' show ?thesis by simp
  qed
qed

lemma FindAllString_after_tokens:
  "FindAllString (after_tokens k s) = drop k (FindAllString s)"
  by (induction k s rule: after_tokens.induct) (auto split: option.splits)

lemma subst_frame:
  "\<exists>X'. subst (FindAllString s) cs (X @ s) = X' @ after_tokens (length cs) s"
proof (induction s arbitrary: X cs rule: FindAllString.induct)
  case 1
  then show ?case by (cases cs) auto
next
  case (2 c s)
  show ?case
  proof (cases cs)
    case Nil
    then show ?thesis by (simp add: subst_Nil2)
  next
    case (Cons col cs')
    consider (tok) b r where "c = CHR ''#''" "scan s = Some (b, r)"
      | (dead1) "c = CHR ''#''" "scan s = None" | (dead2) "c \<noteq> CHR ''#''"
      by (cases "scan s") auto
    then show ?thesis
    proof cases
      case dead1
      from "2.IH"(1) [OF dead1, of cs "X @ [c]"] dead1 Cons show ?thesis by simp
    next
      case dead2
      from "2.IH"(3) [OF dead2, of cs "X @ [c]"] dead2 Cons show ?thesis by simp
    next
      case tok
      let ?t = "CHR ''#'' # b @ '';''"
      from tok have s: "c # s = ?t @ r"
        using scan_SomeD by fastforce
      obtain X1 where X1: "Replace1 (X @ ?t @ r) ?t (col @ '';'') = X1 @ r"
        using Replace1_frame [of ?t X r "col @ '';''"] by blast
      from "2.IH"(2) [OF tok(1) tok(2) refl, of cs' X1]
      obtain X' where "subst (FindAllString r) cs' (X1 @ r) = X' @ after_tokens (length cs') r"
        by blast
      with X1 s tok Cons show ?thesis by simp
    qed
  qed
qed

lemma replace_loop_frame:
  "\<exists>X. replace_loop 0 (FindAllString s) cols s = X @ after_tokens (length cols) s"
  using subst_frame [of s cols "[]"] by (simp add: replace_loop_subst)


lemma fill_template_positional:
  "no_collision (FindAllString s) cols \<Longrightarrow> fill_template s cols = positional s cols"
  by (simp add: fill_template_def replace_loop_positional)

lemma fill_template_frame: "\<exists>X. fill_template s cols = X @ after_tokens (length cols) s"
  by (simp add: fill_template_def replace_loop_frame)

lemma getFinalPartWithOverride_fill:
  assumes "themes cat partV theme partName = Some catalogColors"
    and "parts cat (atoi_or_zero partV) (partIndex partName) = Some svgString"
  shows "getFinalPartWithOverride cat partName partV theme override
         = Inr (fill_template svgString (if length override > 0 then override else catalogColors))"
  using assms by (simp add: getFinalPartWithOverride_def)

lemma getFinalPart_eq:
  "getFinalPart cat partName partV theme = getFinalPartWithOverride cat partName partV theme []"
  by (simp add: getFinalPart_def getFinalPartWithOverride_def split: option.splits)

text \<open>
  For a colour of the usual shape (no \<^verbatim>\<open>#\<close> after its first character and no semicolon)
  the proviso is one of equality: with its semicolon the colour contains a placeholder text
  only if it is that text. \<open>no_equal\<close> is \<open>no_collision\<close> with equality for containment.
\<close>

definition plain_color :: "string \<Rightarrow> bool" where
  "plain_color c = (CHR ''#'' \<notin> set (tl c) \<and> CHR '';'' \<notin> set c)"

fun no_equal :: "string list \<Rightarrow> string list \<Rightarrow> bool" where
  "no_equal [] cols = True"
| "no_equal (t # toks) [] = True"
| "no_equal (t # toks) (col # cols) =
     (list_all (\<lambda>t'. col @ '';'' \<noteq> t') (take (length cols) toks) \<and> no_equal toks cols)"

lemma contains_decompose: "contains s t \<Longrightarrow> \<exists>u v. s = u @ t @ v"
proof (induction s)
  case Nil
  then show ?case by simp
next
  case (Cons x s)
  show ?case
  proof (cases "prefix t (x # s)")
    case True
    then obtain v where "x # s = t @ v" by (auto simp: prefix_def)
    then have "x # s = [] @ t @ v" by simp
    then show ?thesis by blast
  next
    case False
    with Cons obtain u v where "s = u @ t @ v" by auto
    then have "x # s = (x # u) @ t @ v" by simp
    then show ?thesis by blast
  qed
qed

lemma contains_plain:
  assumes "plain_color c" "token t" "contains (c @ '';'') t"
  shows "t = c @ '';''"
proof -
  from assms(2) obtain b where t: "t = CHR ''#'' # b @ '';''" by (auto simp: token_def)
  from contains_decompose [OF assms(3)] obtain u v where d: "c @ '';'' = u @ t @ v" by blast
  have v: "v = []"
  proof (rule ccontr)
    assume "v \<noteq> []"
    then obtain v' z where v': "v = v' @ [z]" by (metis rev_exhaust)
    with d have "c @ '';'' = (u @ t @ v') @ [z]" by simp
    then have "c = u @ t @ v'" by (simp only: append1_eq_conv)
    with t have "CHR '';'' \<in> set c" by simp
    with assms(1) show False by (simp add: plain_color_def)
  qed
  with d t have "c @ '';'' = (u @ CHR ''#'' # b) @ '';''" by simp
  then have c: "c = u @ CHR ''#'' # b" by (simp only: append1_eq_conv)
  have "u = []"
  proof (rule ccontr)
    assume "u \<noteq> []"
    then obtain x u' where "u = x # u'" by (cases u) auto
    with c have "CHR ''#'' \<in> set (tl c)" by simp
    with assms(1) show False by (simp add: plain_color_def)
  qed
  with c t show ?thesis by simp
qed

lemma no_equal_no_collision:
  "list_all plain_color cols \<Longrightarrow> list_all token toks \<Longrightarrow> no_equal toks cols \<Longrightarrow>
   no_collision toks cols"
proof (induction toks cols rule: no_collision.induct)
  case (3 t toks col cols)
  have "\<not> contains (col @ '';'') t'" if "t' \<in> set (take (length cols) toks)" for t'
  proof
    assume c: "contains (col @ '';'') t'"
    from that have "t' \<in> set toks" by (rule in_set_takeD)
    with "3.prems"(2) have "token t'" by (simp add: list_all_iff)
    with "3.prems"(1) c have "t' = col @ '';''" by (auto intro: contains_plain)
    with "3.prems"(3) that show False by (auto simp: list_all_iff)
  qed
  with 3 show ?case by (simp add: list_all_iff)
qed simp_all

lemma FindAllString_tokens: "list_all token (FindAllString s)"
  by (simp add: list_all_iff FindAllString_token)

text \<open>A catalog with one colour list and one template, for concrete instances.\<close>

definition one_template_catalog :: "string list \<Rightarrow> string \<Rightarrow> catalog" where
  "one_template_catalog cols svg =
     \<lparr>themes = (\<lambda>partV theme partName. Some cols), parts = (\<lambda>partID partIndex. Some svg)\<rparr>"

text \<open>
  Claim C7, as amended. Let the resolved colour list of a part (the caller's override when
  it is not empty, the catalog entry otherwise) be shorter than the list of placeholders
  of the part's template. Then the output ends with the template's text after the
  placeholder number \<open>length colors\<close>, unchanged, and that text holds every remaining
  placeholder. If moreover no substituted colour, with its semicolon, contains the text of a
  later placeholder that is still to be replaced (for colours with no \<^verbatim>\<open>#\<close> after their
  first character and no semicolon: equals that text), the output is the template with
  exactly the first \<open>length colors\<close> placeholders replaced, each by the colour of its
  position.
\<close>

theorem short_color_list:
  assumes "themes cat partV theme partName = Some catalogColors"
    and "parts cat (atoi_or_zero partV) (partIndex partName) = Some svgString"
    and "colors = (if length override > 0 then override else catalogColors)"
    and "length colors < length (FindAllString svgString)"
  shows "(\<exists>X. getFinalPartWithOverride cat partName partV theme override
              = Inr (X @ after_tokens (length colors) svgString))
       \<and> FindAllString (after_tokens (length colors) svgString)
           = drop (length colors) (FindAllString svgString)
       \<and> (no_collision (FindAllString svgString) colors
            \<or> (list_all plain_color colors \<and> no_equal (FindAllString svgString) colors)
            \<longrightarrow> getFinalPartWithOverride cat partName partV theme override
                = Inr (positional svgString colors))"
proof -
  have out: "getFinalPartWithOverride cat partName partV theme override
             = Inr (fill_template svgString colors)"
    using getFinalPartWithOverride_fill [OF assms(1,2)] assms(3) by simp
  obtain X where "fill_template svgString colors = X @ after_tokens (length colors) svgString"
    using fill_template_frame by blast
  moreover have "no_collision (FindAllString svgString) colors"
    if "list_all plain_color colors" "no_equal (FindAllString svgString) colors"
    using that FindAllString_tokens no_equal_no_collision by blast
  ultimately show ?thesis
    using out by (auto simp: FindAllString_after_tokens fill_template_positional)
qed

theorem short_color_list_witness:
  "getFinalPartWithOverride (one_template_catalog [''#fff''] ''<path fill:#01;stroke:#02;/>'')
     ''env'' ''00'' ''A'' [] = Inr ''<path fill:#fff;stroke:#02;/>''
   \<and> FindAllString (after_tokens 1 ''<path fill:#01;stroke:#02;/>'') = [''#02;'']"
proof -
  let ?svg = "''<path fill:#01;stroke:#02;/>''"
  let ?cat = "one_template_catalog [''#fff''] ?svg"
  have h1: "themes ?cat ''00'' ''A'' ''env'' = Some [''#fff'']"
    by (simp add: one_template_catalog_def)
  have h2: "parts ?cat (atoi_or_zero ''00'') (partIndex ''env'') = Some ?svg"
    by (simp add: one_template_catalog_def)
  have h3: "[''#fff''] = (if length ([] :: string list) > 0 then [] else [''#fff''])"
    by simp
  have toks: "FindAllString ?svg = [''#01;'', ''#02;'']"
    by code_simp
  have h4: "length [''#fff''] < length (FindAllString ?svg)"
    by (simp add: toks)
  have h5: "no_collision (FindAllString ?svg) [''#fff'']"
    by (simp add: toks)
  have p: "positional ?svg [''#fff''] = ''<path fill:#fff;stroke:#02;/>''"
    by code_simp
  from short_color_list [OF h1 h2 h3 h4] h5 p toks show ?thesis
    by simp
qed

theorem short_color_list_counterexample:
  "length [''#B'', ''red''] < length (FindAllString ''#A;#B;#C;'')
   \<and> getFinalPartWithOverride (one_template_catalog [''#111''] ''#A;#B;#C;'')
         ''env'' ''00'' ''A'' [''#B'', ''red''] = Inr ''red;#B;#C;''
   \<and> positional ''#A;#B;#C;'' [''#B'', ''red''] = ''#B;red;#C;''"
  by code_simp

text \<open>
  Claim C9, as amended. When there are at least as many resolved colours as placeholders
  (in particular when the same placeholder text stands at several positions), every match
  is replaced by the colour of its position, provided no substituted colour, with its
  semicolon, contains the text of a later placeholder as a substring; for colours with no
  \<^verbatim>\<open>#\<close> after their first character and no semicolon it is enough that no substituted
  colour, with its semicolon, equals the text of a later placeholder.
\<close>

theorem repeated_token_positional:
  assumes "themes cat partV theme partName = Some catalogColors"
    and "parts cat (atoi_or_zero partV) (partIndex partName) = Some svgString"
    and "colors = (if length override > 0 then override else catalogColors)"
    and "length (FindAllString svgString) \<le> length colors"
    and "no_collision (FindAllString svgString) colors
         \<or> (list_all plain_color colors \<and> no_equal (FindAllString svgString) colors)"
  shows "getFinalPartWithOverride cat partName partV theme override
         = Inr (positional svgString colors)
       \<and> FindAllString (after_tokens (length colors) svgString) = []"
proof -
  have "getFinalPartWithOverride cat partName partV theme override
        = Inr (fill_template svgString colors)"
    using getFinalPartWithOverride_fill [OF assms(1,2)] assms(3) by simp
  moreover have "no_collision (FindAllString svgString) colors"
    using assms(5) FindAllString_tokens no_equal_no_collision by blast
  ultimately show ?thesis
    using assms(4) by (simp add: FindAllString_after_tokens fill_template_positional)
qed

theorem repeated_token_positional_witness:
  "FindAllString ''<a #01;/><b #01;/>'' = [''#01;'', ''#01;'']
   \<and> getFinalPartWithOverride (one_template_catalog [''#fff'', ''#000''] ''<a #01;/><b #01;/>'')
         ''env'' ''00'' ''A'' [] = Inr ''<a #fff;/><b #000;/>''"
proof -
  let ?svg = "''<a #01;/><b #01;/>''"
  let ?cols = "[''#fff'', ''#000'']"
  let ?cat = "one_template_catalog ?cols ?svg"
  have h1: "themes ?cat ''00'' ''A'' ''env'' = Some ?cols"
    by (simp add: one_template_catalog_def)
  have h2: "parts ?cat (atoi_or_zero ''00'') (partIndex ''env'') = Some ?svg"
    by (simp add: one_template_catalog_def)
  have h3: "?cols = (if length ([] :: string list) > 0 then [] else ?cols)"
    by simp
  have toks: "FindAllString ?svg = [''#01;'', ''#01;'']"
    by code_simp
  have h4: "length (FindAllString ?svg) \<le> length ?cols"
    by (simp add: toks)
  have h5: "no_collision (FindAllString ?svg) ?cols
            \<or> (list_all plain_color ?cols \<and> no_equal (FindAllString ?svg) ?cols)"
    by (simp add: toks plain_color_def)
  have p: "positional ?svg ?cols = ''<a #fff;/><b #000;/>''"
    by code_simp
  from repeated_token_positional [OF h1 h2 h3 h4 h5] p toks show ?thesis
    by simp
qed

theorem repeated_token_positional_counterexample:
  "FindAllString ''#B;#B;'' = [''#B;'', ''#B;'']
   \<and> ''x#B'' \<notin> set (FindAllString ''#B;#B;'') \<and> ''x#B;'' \<notin> set (FindAllString ''#B;#B;'')
   \<and> ''c'' \<notin> set (FindAllString ''#B;#B;'') \<and> ''c;'' \<notin> set (FindAllString ''#B;#B;'')
   \<and> getFinalPartWithOverride (one_template_catalog [''#111''] ''#B;#B;'')
         ''env'' ''00'' ''A'' [''x#B'', ''c''] = Inr ''xc;#B;''
   \<and> positional ''#B;#B;'' [''x#B'', ''c''] = ''x#B;c;''"
  by code_simp

section \<open>Configurations built from options\<close>

text \<open>What every option leaves true of a configuration: theme letters are A, B or C, forced
  and allowed versions are two bytes long, and a stored list is not empty.\<close>

definition config_ok :: "config \<Rightarrow> bool" where
  "config_ok cfg =
     ((\<forall>t. selectedTheme cfg = Some t \<longrightarrow> theme_letter t)
      \<and> (\<forall>p t. partTheme cfg p = Some t \<longrightarrow> theme_letter t)
      \<and> (\<forall>p l. allowedThemes cfg p = Some l \<longrightarrow> l \<noteq> [] \<and> list_all theme_letter l)
      \<and> (\<forall>p v. forcePartV cfg p = Some v \<longrightarrow> length v = 2)
      \<and> (\<forall>p l. allowedVersions cfg p = Some l \<longrightarrow> l \<noteq> [] \<and> list_all (\<lambda>v. length v = 2) l))"

lemma config_ok_zero: "config_ok zero_config"
  by (simp add: config_ok_def zero_config_def)

lemma filter_theme_letters:
  "list_all theme_letter (filter (\<lambda>tu. tu = ''A'' \<or> tu = ''B'' \<or> tu = ''C'') xs)"
  by (induction xs) (auto simp: theme_letter_def)

lemma filter_two_bytes: "list_all (\<lambda>v. length v = 2) (filter (\<lambda>v. length v = 2) xs)"
  by (induction xs) auto

lemma apply_option_ok:
  assumes "config_ok c"
  shows "config_ok (apply_option lib opt c)"
proof (cases opt)
  case (WithTheme theme)
  with assms show ?thesis by (auto simp: config_ok_def Let_def theme_letter_def)
next
  case (WithPartVersion pn pv)
  with assms show ?thesis by (auto simp: config_ok_def Let_def)
next
  case (WithPartColors pn cols)
  with assms show ?thesis by (auto simp: config_ok_def Let_def)
next
  case (WithPartTheme pn t)
  with assms show ?thesis by (auto simp: config_ok_def Let_def theme_letter_def)
next
  case (WithAllowedThemes pn ts)
  with assms show ?thesis
    using filter_theme_letters [of "map (\<lambda>t. ToUpper lib (TrimSpace t)) ts"]
    by (auto simp: config_ok_def Let_def)
next
  case (WithoutPart pn)
  with assms show ?thesis by (auto simp: config_ok_def Let_def)
next
  case (WithAllowedVersions pn vs)
  with assms show ?thesis
    using filter_two_bytes [of "map TrimSpace vs"]
    by (auto simp: config_ok_def Let_def)
next
  case (WithGender g)
  with assms show ?thesis by (auto simp: config_ok_def Let_def theme_letter_def)
next
  case WithoutBackground
  with assms show ?thesis by (auto simp: config_ok_def)
qed

lemma foldl_options_ok:
  "config_ok c \<Longrightarrow> config_ok (foldl (\<lambda>c opt. apply_option lib opt c) c opts)"
  by (induction opts arbitrary: c) (auto intro: apply_option_ok)

lemma apply_options_ok: "config_ok (apply_options lib opts)"
  unfolding apply_options_def by (rule foldl_options_ok [OF config_ok_zero])

text \<open>The precedence rules in the words of the specification; \<open>v\<close> is the raw value.\<close>

definition spec_theme :: "config \<Rightarrow> string \<Rightarrow> nat \<Rightarrow> string \<Rightarrow> string" where
  "spec_theme cfg name v seed_theme =
     (case partTheme cfg name of
        Some forced \<Rightarrow> forced
      | None \<Rightarrow>
          (case allowedThemes cfg name of
             Some list \<Rightarrow> list ! (v mod length list)
           | None \<Rightarrow>
               (case selectedTheme cfg of
                  Some global \<Rightarrow> global
                | None \<Rightarrow> seed_theme)))"

definition spec_version :: "config \<Rightarrow> string \<Rightarrow> nat \<Rightarrow> string \<Rightarrow> string" where
  "spec_version cfg name v seed_version =
     (case forcePartV cfg name of
        Some forced \<Rightarrow> forced
      | None \<Rightarrow>
          (case allowedVersions cfg name of
             Some list \<Rightarrow> list ! (v mod length list)
           | None \<Rightarrow> seed_version))"

lemma go_rem_nonneg: "0 \<le> a \<Longrightarrow> 0 < b \<Longrightarrow> go_rem a b = a mod b"
  by (cases "a = 0") (simp_all add: go_rem_def)

lemma index_go_rem:
  assumes "0 \<le> val" "l \<noteq> []"
  shows "index_or_panic l (go_rem val (int (length l))) = Inr (l ! (nat val mod length l))"
proof -
  have n: "0 < int (length l)" using assms(2) by simp
  have r: "go_rem val (int (length l)) = val mod int (length l)"
    using assms(1) n by (rule go_rem_nonneg)
  have "0 \<le> val mod int (length l)" "val mod int (length l) < int (length l)"
    using n by simp_all
  moreover have "nat (val mod int (length l)) = nat val mod length l"
    using assms(1) by (simp add: nat_mod_distrib)
  ultimately show ?thesis by (simp add: index_or_panic_def r)
qed

lemma resolve_theme_spec:
  assumes "config_ok cfg" "0 \<le> val"
  shows "resolve_theme cfg name val theme0 = Inr (spec_theme cfg name (nat val) theme0)"
proof (cases "partTheme cfg name")
  case (Some pt)
  then show ?thesis by (simp add: resolve_theme_def spec_theme_def)
next
  case None
  show ?thesis
  proof (cases "allowedThemes cfg name")
    case None
    with \<open>partTheme cfg name = None\<close> show ?thesis
      by (simp add: resolve_theme_def spec_theme_def split: option.splits)
  next
    case (Some l)
    with assms(1) have "l \<noteq> []" by (auto simp: config_ok_def)
    with Some \<open>partTheme cfg name = None\<close> assms(2) show ?thesis
      by (simp add: resolve_theme_def spec_theme_def index_go_rem)
  qed
qed

lemma resolve_version_spec:
  assumes "config_ok cfg" "0 \<le> val"
  shows "resolve_version cfg name val partV0 = Inr (spec_version cfg name (nat val) partV0)"
proof -
  have fb: "(case allowedVersions cfg name of
               Some allowed \<Rightarrow>
                 if length allowed > 0
                 then index_or_panic allowed (go_rem val (int (length allowed)))
                 else Inr partV0
             | None \<Rightarrow> Inr partV0)
            = Inr (case allowedVersions cfg name of
                     Some list \<Rightarrow> list ! (nat val mod length list)
                   | None \<Rightarrow> partV0)"
  proof (cases "allowedVersions cfg name")
    case None
    then show ?thesis by simp
  next
    case (Some l)
    with assms(1) have "l \<noteq> []" by (auto simp: config_ok_def)
    with Some assms(2) show ?thesis by (simp add: index_go_rem)
  qed
  show ?thesis
  proof (cases "forcePartV cfg name")
    case None
    with fb show ?thesis by (simp add: resolve_version_def spec_version_def)
  next
    case (Some forced)
    with assms(1) have "length forced = 2" by (auto simp: config_ok_def)
    with Some show ?thesis by (simp add: resolve_version_def spec_version_def)
  qed
qed

text \<open>
  Claim C3. For every configuration built from options, every part name and every raw
  value \<open>val \<ge> 0\<close>, resolution succeeds and yields the pair chosen by the precedence
  rules: the theme is the part's forced theme, else the entry of the part's allowed themes
  at index \<open>val mod length\<close>, else the global theme, else the seed-derived default; the
  version is the part's forced version, else the entry of the part's allowed versions at
  index \<open>val mod length\<close>, else the seed-derived default.
\<close>

theorem override_precedence:
  assumes "0 \<le> val"
  shows "resolve_part (apply_options lib opts) name val
         = Inr (spec_version (apply_options lib opts) name (nat val)
                  (fst (default_part (scale_nr val))),
                spec_theme (apply_options lib opts) name (nat val)
                  (snd (default_part (scale_nr val))))"
  using assms
  by (simp add: resolve_part_def resolve_theme_spec resolve_version_spec apply_options_ok
      split: prod.splits)

definition plain_lib :: stdlib where
  "plain_lib =
     \<lparr>Sum256 = (\<lambda>input. replicate 32 (CHR 0x12)),
      unicode_ToUpper = (\<lambda>s. s), unicode_ToLower = (\<lambda>s. s)\<rparr>"

theorem override_precedence_witness:
  "resolve_part
     (apply_options plain_lib
        [WithTheme ''b'', WithAllowedThemes ''top'' [''a'', ''c''], WithPartTheme ''eyes'' ''C'',
         WithAllowedVersions ''top'' [''01'', ''03'', ''07''], WithPartVersion ''top'' ''11''])
     ''top'' 50 = Inr (''11'', ''A'')
   \<and> resolve_part
     (apply_options plain_lib
        [WithTheme ''b'', WithAllowedThemes ''top'' [''a'', ''c''], WithPartTheme ''eyes'' ''C'',
         WithAllowedVersions ''top'' [''01'', ''03'', ''07''], WithPartVersion ''top'' ''11''])
     ''clo'' 50 = Inr (''08'', ''B'')"
proof -
  let ?opts = "[WithTheme ''b'', WithAllowedThemes ''top'' [''a'', ''c''],
                WithPartTheme ''eyes'' ''C'', WithAllowedVersions ''top'' [''01'', ''03'', ''07''],
                WithPartVersion ''top'' ''11'']"
  have h: "(0::int) \<le> 50" by simp
  have a: "spec_version (apply_options plain_lib ?opts) ''top'' (nat 50)
             (fst (default_part (scale_nr 50))) = ''11''"
    by code_simp
  have b: "spec_theme (apply_options plain_lib ?opts) ''top'' (nat 50)
             (snd (default_part (scale_nr 50))) = ''A''"
    by code_simp
  have c: "spec_version (apply_options plain_lib ?opts) ''clo'' (nat 50)
             (fst (default_part (scale_nr 50))) = ''08''"
    by code_simp
  have d: "spec_theme (apply_options plain_lib ?opts) ''clo'' (nat 50)
             (snd (default_part (scale_nr 50))) = ''B''"
    by code_simp
  from override_precedence [OF h, of plain_lib ?opts "''top''"]
       override_precedence [OF h, of plain_lib ?opts "''clo''"] a b c d
  show ?thesis by simp
qed





lemma resolve_part_spec:
  assumes "config_ok cfg" "0 \<le> val"
  shows "resolve_part cfg name val
         = Inr (spec_version cfg name (nat val) (fst (default_part (scale_nr val))),
                spec_theme cfg name (nat val) (snd (default_part (scale_nr val))))"
  using assms
  by (simp add: resolve_part_def resolve_theme_spec resolve_version_spec split: prod.splits)










section \<open>The seed and the loop over the parts\<close>

definition digit_value :: "char \<Rightarrow> nat" where
  "digit_value c = of_char c - 48"

lemma digit_of_char:
  assumes "a \<in> set digit_chars"
  shows "(of_char a :: int) - 48 = int (digit_value a)" and "digit_value a \<le> 9"
    and "a \<noteq> CHR ''-''" and "a \<noteq> CHR ''+''"
  using assms by (auto simp: digit_chars_def digit_value_def)

lemma Atoi_two_digits:
  assumes "a \<in> set digit_chars" "b \<in> set digit_chars"
  shows "atoi_or_zero [a, b] = int (10 * digit_value a + digit_value b)"
  using assms digit_of_char(1) [OF assms(1)] digit_of_char(1) [OF assms(2)]
    digit_of_char(3,4) [OF assms(1)]
  by (simp add: atoi_or_zero_def Atoi_def)

lemma take_2_drop:
  assumes "n + 2 \<le> length xs"
  shows "take 2 (drop n xs) = [xs ! n, xs ! Suc n]"
proof -
  from assms have "drop n xs = xs ! n # drop (Suc n) xs"
    by (simp add: Cons_nth_drop_Suc)
  also from assms have "drop (Suc n) xs = xs ! Suc n # drop (Suc (Suc n)) xs"
    by (simp add: Cons_nth_drop_Suc)
  finally show ?thesis by (simp add: numeral_2_eq_2)
qed

lemma raw_value_digits:
  assumes "i * 2 + 2 \<le> length hs" "set hs \<subseteq> set digit_chars"
  shows "raw_value hs i
         = Inr (int (10 * digit_value (hs ! (i * 2)) + digit_value (hs ! Suc (i * 2))))"
proof -
  from assms have "hs ! (i * 2) \<in> set digit_chars" "hs ! Suc (i * 2) \<in> set digit_chars"
    by (auto simp: subset_iff)
  then have "atoi_or_zero [hs ! (i * 2), hs ! Suc (i * 2)]
             = int (10 * digit_value (hs ! (i * 2)) + digit_value (hs ! Suc (i * 2)))"
    by (rule Atoi_two_digits)
  with assms(1) show ?thesis by (simp add: raw_value_def take_2_drop)
qed

lemma raw_value_short: "length hs < i * 2 + 2 \<Longrightarrow> raw_value hs i = Inl SliceBoundsOutOfRange"
  by (simp add: raw_value_def)

lemma raw_value_error: "raw_value hs i = Inl e \<Longrightarrow> e = SliceBoundsOutOfRange"
  by (auto simp: raw_value_def split: if_splits)

lemma hashStr_take: "hashStr lib input = take 12 (sha256Numbers lib input)"
  by (simp add: hashStr_def)

lemma hashStr_digits: "set (hashStr lib input) \<subseteq> set digit_chars"
proof -
  have "set (sha256Numbers lib input) \<subseteq> set digit_chars"
    by (auto simp: sha256Numbers_def)
  then show ?thesis
    unfolding hashStr_take using set_take_subset by fast
qed

lemma raw_value_nonneg:
  assumes "set hs \<subseteq> set digit_chars" "raw_value hs i = Inr v"
  shows "0 \<le> v" and "v \<le> 99"
proof -
  from assms(2) have len: "i * 2 + 2 \<le> length hs"
    by (auto simp: raw_value_def split: if_splits)
  from len assms(1) have "hs ! (i * 2) \<in> set digit_chars" "hs ! Suc (i * 2) \<in> set digit_chars"
    by (auto simp: subset_iff)
  then have "digit_value (hs ! (i * 2)) \<le> 9" "digit_value (hs ! Suc (i * 2)) \<le> 9"
    by (auto dest: digit_of_char(2))
  moreover from raw_value_digits [OF len assms(1)] assms(2)
  have "v = int (10 * digit_value (hs ! (i * 2)) + digit_value (hs ! Suc (i * 2)))" by simp
  ultimately show "0 \<le> v" and "v \<le> 99" by simp_all
qed

text \<open>A catalog is complete when every (version, theme, part) that has colours has a template.\<close>

definition catalog_complete :: "catalog \<Rightarrow> bool" where
  "catalog_complete cat =
     (\<forall>partV theme partName colors.
        themes cat partV theme partName = Some colors \<longrightarrow>
        parts cat (atoi_or_zero partV) (partIndex partName) \<noteq> None)"

lemma getFinalPartWithOverride_total:
  assumes "catalog_complete cat"
  shows "\<exists>part. getFinalPartWithOverride cat partName partV theme ov = Inr part"
proof (cases "themes cat partV theme partName")
  case None
  then show ?thesis by (simp add: getFinalPartWithOverride_def)
next
  case (Some colors)
  with assms obtain svg where "parts cat (atoi_or_zero partV) (partIndex partName) = Some svg"
    unfolding catalog_complete_def by blast
  with Some show ?thesis by (simp add: getFinalPartWithOverride_def Let_def)
qed

lemma render_part_total:
  assumes "config_ok cfg" "0 \<le> v" "catalog_complete cat"
  shows "\<exists>part. render_part cat cfg name v = Inr part"
  using getFinalPartWithOverride_total [OF assms(3)]
  by (simp add: render_part_def resolve_part_spec [OF assms(1,2)])

lemma parts_loop_cong:
  assumes "\<And>name v. render_part cat cfg name v = render_part cat cfg' name v"
  shows "parts_loop cat cfg hs i names sel = parts_loop cat cfg' hs i names sel"
  by (induction names arbitrary: i sel) (auto simp: assms split: sum.splits)

lemma parts_loop_short:
  "\<exists>j < length names. length hs < (i + j) * 2 + 2 \<Longrightarrow>
   \<exists>e. parts_loop cat cfg hs i names sel = Inl e"
proof (induction names arbitrary: i sel)
  case Nil
  then show ?case by simp
next
  case (Cons name names)
  then obtain j where j: "j < length (name # names)" "length hs < (i + j) * 2 + 2" by blast
  show ?case
  proof (cases "raw_value hs i")
    case (Inl e)
    then show ?thesis by simp
  next
    case (Inr v)
    then have "\<not> length hs < i * 2 + 2" by (auto simp: raw_value_def split: if_splits)
    with j obtain j' where j': "j = Suc j'" by (cases j) auto
    with j have "\<exists>j < length names. length hs < (Suc i + j) * 2 + 2" by auto
    from Cons.IH [OF this] Inr show ?thesis by (auto split: sum.splits)
  qed
qed

lemma parts_loop_total:
  "\<forall>j < length names. \<exists>v part. raw_value hs (i + j) = Inr v
       \<and> render_part cat cfg (names ! j) v = Inr part \<Longrightarrow>
   \<exists>sel'. parts_loop cat cfg hs i names sel = Inr sel'"
proof (induction names arbitrary: i sel)
  case Nil
  then show ?case by simp
next
  case (Cons name names)
  from Cons.prems obtain v part where
    h: "raw_value hs i = Inr v" "render_part cat cfg name v = Inr part"
    by fastforce
  have "\<forall>j < length names. \<exists>v part. raw_value hs (Suc i + j) = Inr v
          \<and> render_part cat cfg (names ! j) v = Inr part"
  proof (intro allI impI)
    fix j assume "j < length names"
    then have "Suc j < length (name # names)" by simp
    with Cons.prems show "\<exists>v part. raw_value hs (Suc i + j) = Inr v
          \<and> render_part cat cfg (names ! j) v = Inr part"
      by fastforce
  qed
  from Cons.IH [OF this] h show ?case by simp
qed

lemma parts_loop_error:
  "parts_loop cat cfg hs i names sel = Inl e \<Longrightarrow>
   (\<And>name v. \<exists>part. render_part cat cfg name v = Inr part \<or> v < 0) \<Longrightarrow>
   set hs \<subseteq> set digit_chars \<Longrightarrow> e = SliceBoundsOutOfRange"
proof (induction names arbitrary: i sel)
  case Nil
  then show ?case by simp
next
  case (Cons name names)
  show ?case
  proof (cases "raw_value hs i")
    case (Inl e')
    with Cons.prems(1) show ?thesis by (auto dest: raw_value_error)
  next
    case (Inr v)
    with Cons.prems(3) have "0 \<le> v" by (auto dest: raw_value_nonneg)
    with Cons.prems(2) [of name v] obtain part where "render_part cat cfg name v = Inr part"
      by auto
    with Inr Cons.prems(1) have "parts_loop cat cfg hs (Suc i) names (sel(name \<mapsto> part)) = Inl e"
      by simp
    from Cons.IH [OF this Cons.prems(2) Cons.prems(3)] show ?thesis .
  qed
qed



section \<open>The generated document\<close>

text \<open>The document in the words of the specification: the opening tag, the fragments of
  the parts that are shown, in the fixed render order, and the closing tag.\<close>

definition render_order :: "string list" where
  "render_order = [''env'', ''head'', ''clo'', ''top'', ''eyes'', ''mouth'']"

definition document :: "string list \<Rightarrow> string" where
  "document fragments = svgStart @ concat fragments @ svgEnd"

definition shown_parts :: "config \<Rightarrow> string list" where
  "shown_parts cfg =
     filter (\<lambda>p. if p = ''env'' then \<not> withoutBackground cfg \<and> \<not> disabled cfg p
                  else \<not> disabled cfg p) render_order"





lemma assemble_document:
  "assemble cfg sel = document (map (selected sel) (shown_parts cfg))"
  by (simp add: assemble_def document_def shown_parts_def render_order_def)

lemma Generate_nonempty:
  assumes "input \<noteq> []"
  shows "Generate lib cat input opts =
     (case parts_loop cat (apply_options lib opts) (hashStr lib input) 0 partNames Map.empty of
        Inl e \<Rightarrow> Inl e
      | Inr sel \<Rightarrow> Inr (document (map (selected sel) (shown_parts (apply_options lib opts)))))"
  using assms by (simp add: Generate_def Let_def assemble_document split: sum.splits)

lemma document_not_empty: "document fragments \<noteq> []"
  by (simp add: document_def svgStart_def)






subsection \<open>A small library and catalog for concrete instances\<close>

text \<open>\<open>plain_lib\<close> has a digest of 32 bytes \<open>0x12\<close> for every input, so the seed is
  \<open>121212121212\<close>; \<open>short_lib\<close> has a digest of 32 bytes \<open>0xaa\<close>, whose hexadecimal form has
  no decimal digit; the digest of \<open>mixed_lib\<close> begins \<open>a1b23c4de56f708a9b0c1d\<close>, so letters
  are deleted and the seed is \<open>123456708901\<close>. In \<open>demo_catalog\<close> the only colour of a part spells its version and
  theme, and the template of a part shows its index.\<close>

definition short_lib :: stdlib where
  "short_lib =
     \<lparr>Sum256 = (\<lambda>input. replicate 32 (CHR 0xAA)),
      unicode_ToUpper = (\<lambda>s. s), unicode_ToLower = (\<lambda>s. s)\<rparr>"


definition demo_catalog :: catalog where
  "demo_catalog =
     \<lparr>themes = (\<lambda>partV theme partName. Some [partV @ theme]),
      parts = (\<lambda>partID partIndex. Some (''<'' @ decimal partIndex @ '' #c;>''))\<rparr>"

lemma demo_catalog_complete: "catalog_complete demo_catalog"
  by (simp add: catalog_complete_def demo_catalog_def)

lemma plain_hashStr: "hashStr plain_lib input = ''121212121212''"
  by code_simp

lemma short_sha256Numbers: "sha256Numbers short_lib input = []"
  by code_simp

lemma plain_sha256Numbers: "length (sha256Numbers plain_lib input) = 64"
  by code_simp

lemma plain_loop:
  "parts_loop demo_catalog zero_config (hashStr plain_lib input) 0 partNames Map.empty
   = Inr [''env'' \<mapsto> ''<0 06A;>'', ''clo'' \<mapsto> ''<1 06A;>'', ''head'' \<mapsto> ''<2 06A;>'',
          ''mouth'' \<mapsto> ''<3 06A;>'', ''eyes'' \<mapsto> ''<4 06A;>'', ''top'' \<mapsto> ''<5 06A;>'']"
proof -
  have rv: "raw_value ''121212121212'' 0 = Inr 12"
    "raw_value ''121212121212'' (Suc 0) = Inr 12"
    "raw_value ''121212121212'' (Suc (Suc 0)) = Inr 12"
    "raw_value ''121212121212'' (Suc (Suc (Suc 0))) = Inr 12"
    "raw_value ''121212121212'' (Suc (Suc (Suc (Suc 0)))) = Inr 12"
    "raw_value ''121212121212'' (Suc (Suc (Suc (Suc (Suc 0))))) = Inr 12"
    by code_simp+
  have rp: "render_part demo_catalog zero_config ''env'' 12 = Inr ''<0 06A;>''"
    "render_part demo_catalog zero_config ''clo'' 12 = Inr ''<1 06A;>''"
    "render_part demo_catalog zero_config ''head'' 12 = Inr ''<2 06A;>''"
    "render_part demo_catalog zero_config ''mouth'' 12 = Inr ''<3 06A;>''"
    "render_part demo_catalog zero_config ''eyes'' 12 = Inr ''<4 06A;>''"
    "render_part demo_catalog zero_config ''top'' 12 = Inr ''<5 06A;>''"
    by code_simp+
  show ?thesis
    by (simp add: plain_hashStr partNames_def rv rp)
qed

subsection \<open>When generation completes\<close>

lemma hashStr_length_12:
  "12 \<le> length (sha256Numbers lib input) \<Longrightarrow> length (hashStr lib input) = 12"
  by (simp add: hashStr_take)

lemma hashStr_length_short:
  "length (sha256Numbers lib input) < 12 \<Longrightarrow> length (hashStr lib input) < 12"
  by (simp add: hashStr_take)

lemma parts_loop_completes:
  assumes "12 \<le> length (sha256Numbers lib input)" "catalog_complete cat"
  shows "\<exists>sel. parts_loop cat (apply_options lib opts) (hashStr lib input) 0 partNames Map.empty
               = Inr sel"
proof (rule parts_loop_total, intro allI impI)
  fix j assume "j < length partNames"
  then have "(0 + j) * 2 + 2 \<le> length (hashStr lib input)"
    using hashStr_length_12 [OF assms(1)] by (simp add: partNames_def)
  from raw_value_digits [OF this hashStr_digits]
  obtain v where v: "raw_value (hashStr lib input) (0 + j) = Inr v" by blast
  with raw_value_nonneg(1) [OF hashStr_digits] have "0 \<le> v" by blast
  from render_part_total [OF apply_options_ok this assms(2)] v
  show "\<exists>v part. raw_value (hashStr lib input) (0 + j) = Inr v
          \<and> render_part cat (apply_options lib opts) (partNames ! j) v = Inr part"
    by blast
qed

lemma parts_loop_panics:
  assumes "length (sha256Numbers lib input) < 12"
  shows "\<exists>e. parts_loop cat cfg (hashStr lib input) 0 partNames Map.empty = Inl e"
proof (rule parts_loop_short)
  have "(5::nat) < length partNames" by (simp add: partNames_def)
  moreover have "length (hashStr lib input) < (0 + 5) * 2 + 2"
    using hashStr_length_short [OF assms] by simp
  ultimately show "\<exists>j<length partNames. length (hashStr lib input) < (0 + j) * 2 + 2"
    by blast
qed



text \<open>
  Claim C5. \<open>Generate\<close> returns the empty string exactly for the empty input. For a
  non-empty input whose hexadecimal digest holds at least 12 decimal digits (and a complete
  catalog) the result is one document: the opening tag with the view box \<open>0 0 231 231\<close>,
  the fragments of the parts that the configuration shows, and the closing tag, whatever
  the options are. (For a shorter seed there is no document: see the next theorem.)
\<close>

theorem generate_empty_or_document:
  "(Generate lib cat input opts = Inr [] \<longleftrightarrow> input = [])
   \<and> (input \<noteq> [] \<and> 12 \<le> length (sha256Numbers lib input) \<and> catalog_complete cat \<longrightarrow>
        (\<exists>sel. Generate lib cat input opts
                = Inr (document (map (selected sel) (shown_parts (apply_options lib opts))))))"
proof -
  have "Generate lib cat input opts \<noteq> Inr []" if "input \<noteq> []"
    using document_not_empty by (auto simp: Generate_nonempty [OF that] split: sum.splits)
  moreover have "Generate lib cat [] opts = Inr []"
    by (simp add: Generate_def)
  moreover have "\<exists>sel. Generate lib cat input opts
                  = Inr (document (map (selected sel) (shown_parts (apply_options lib opts))))"
    if "input \<noteq> []" "12 \<le> length (sha256Numbers lib input)" "catalog_complete cat"
    using parts_loop_completes [OF that(2,3), of opts]
    by (auto simp: Generate_nonempty [OF that(1)])
  ultimately show ?thesis by blast
qed

theorem generate_empty_or_document_witness:
  "Generate plain_lib demo_catalog [] [WithoutPart ''top''] = Inr []
   \<and> (\<exists>sel. Generate plain_lib demo_catalog ''Binx Bond123'' [WithoutPart ''top'', WithoutBackground]
        = Inr (document (map (selected sel) [''head'', ''clo'', ''eyes'', ''mouth''])))"
proof -
  have h: "''Binx Bond123'' \<noteq> []
           \<and> 12 \<le> length (sha256Numbers plain_lib ''Binx Bond123'')
           \<and> catalog_complete demo_catalog"
    by (simp add: plain_sha256Numbers demo_catalog_complete)
  have s: "shown_parts (apply_options plain_lib [WithoutPart ''top'', WithoutBackground])
           = [''head'', ''clo'', ''eyes'', ''mouth'']"
    by code_simp
  from generate_empty_or_document
         [of plain_lib demo_catalog "''Binx Bond123''" "[WithoutPart ''top'', WithoutBackground]"]
       generate_empty_or_document [of plain_lib demo_catalog "[]" "[WithoutPart ''top'']"] h s
  show ?thesis by simp
qed

text \<open>
  Claim C8 fails on the code. When fewer than 12 decimal digits remain, \<open>Generate\<close> on a
  non-empty input does not use the digits that are available: the slice expression of the
  first part without a full pair of digits panics, and no result is produced.
\<close>

theorem short_seed_panics:
  assumes "input \<noteq> []" "length (sha256Numbers lib input) < 12"
  shows "(\<exists>e. Generate lib cat input opts = Inl e)
       \<and> (catalog_complete cat \<longrightarrow> Generate lib cat input opts = Inl SliceBoundsOutOfRange)"
proof -
  let ?cfg = "apply_options lib opts"
  obtain e where e: "parts_loop cat ?cfg (hashStr lib input) 0 partNames Map.empty = Inl e"
    using parts_loop_panics [OF assms(2)] by blast
  have "e = SliceBoundsOutOfRange" if c: "catalog_complete cat"
  proof (rule parts_loop_error [OF e _ hashStr_digits])
    fix name v
    show "\<exists>part. render_part cat ?cfg name v = Inr part \<or> v < 0"
    proof (cases "0 \<le> v")
      case True
      from render_part_total [OF apply_options_ok True c] show ?thesis by blast
    next
      case False
      then show ?thesis by simp
    qed
  qed
  with e show ?thesis by (simp add: Generate_nonempty [OF assms(1)])
qed

theorem short_seed_panics_witness:
  "hexHash short_lib ''Binx Bond123''
     = ''aaaaaaaaaaaaaaaaaaaaaaaaaaaaaaaaaaaaaaaaaaaaaaaaaaaaaaaaaaaaaaaa''
   \<and> Generate short_lib demo_catalog ''Binx Bond123'' [] = Inl SliceBoundsOutOfRange"
proof -
  have h: "''Binx Bond123'' \<noteq> []" "length (sha256Numbers short_lib ''Binx Bond123'') < 12"
    by (simp_all add: short_sha256Numbers)
  have x: "hexHash short_lib ''Binx Bond123''
           = ''aaaaaaaaaaaaaaaaaaaaaaaaaaaaaaaaaaaaaaaaaaaaaaaaaaaaaaaaaaaaaaaa''"
    by code_simp
  from short_seed_panics [OF h, of demo_catalog "[]"] demo_catalog_complete x
  show ?thesis by simp
qed

subsection \<open>Options that only hide parts\<close>

lemma resolve_part_disabledParts:
  "resolve_part (cfg\<lparr>disabledParts := d\<rparr>) name v = resolve_part cfg name v"
proof -
  have "resolve_theme (cfg\<lparr>disabledParts := d\<rparr>) name v t = resolve_theme cfg name v t" for t
    by (simp add: resolve_theme_def split: option.splits)
  moreover
  have "resolve_version (cfg\<lparr>disabledParts := d\<rparr>) name v t = resolve_version cfg name v t" for t
    by (simp add: resolve_version_def split: option.splits)
  ultimately show ?thesis by (simp add: resolve_part_def cong: sum.case_cong prod.case_cong)
qed

lemma resolve_part_withoutBackground:
  "resolve_part (cfg\<lparr>withoutBackground := b\<rparr>) name v = resolve_part cfg name v"
proof -
  have "resolve_theme (cfg\<lparr>withoutBackground := b\<rparr>) name v t = resolve_theme cfg name v t" for t
    by (simp add: resolve_theme_def split: option.splits)
  moreover
  have "resolve_version (cfg\<lparr>withoutBackground := b\<rparr>) name v t = resolve_version cfg name v t" for t
    by (simp add: resolve_version_def split: option.splits)
  ultimately show ?thesis by (simp add: resolve_part_def cong: sum.case_cong prod.case_cong)
qed

lemma render_part_disabledParts:
  "render_part cat (cfg\<lparr>disabledParts := d\<rparr>) name v = render_part cat cfg name v"
  by (simp add: render_part_def resolve_part_disabledParts override_of_def
      cong: sum.case_cong prod.case_cong)

lemma render_part_withoutBackground:
  "render_part cat (cfg\<lparr>withoutBackground := b\<rparr>) name v = render_part cat cfg name v"
  by (simp add: render_part_def resolve_part_withoutBackground override_of_def
      cong: sum.case_cong prod.case_cong)

lemma TrimSpace_part_names:
  "TrimSpace ''env'' = ''env''" "TrimSpace ''clo'' = ''clo''" "TrimSpace ''head'' = ''head''"
  "TrimSpace ''mouth'' = ''mouth''" "TrimSpace ''eyes'' = ''eyes''" "TrimSpace ''top'' = ''top''"
  by code_simp+

lemma apply_WithoutPart:
  assumes "p \<in> set partNames"
  shows "apply_options lib [WithoutPart p] = zero_config\<lparr>disabledParts := [p \<mapsto> True]\<rparr>"
  using assms
  by (auto simp: apply_options_def partNames_def known_part_def TrimSpace_part_names
      zero_config_def)

lemma shown_parts_zero: "shown_parts zero_config = render_order"
  by (simp add: shown_parts_def zero_config_def disabled_def render_order_def)

lemma shown_parts_WithoutPart:
  assumes "p \<in> set partNames"
  shows "shown_parts (zero_config\<lparr>disabledParts := [p \<mapsto> True]\<rparr>) = removeAll p render_order"
  using assms
  by (auto simp: shown_parts_def zero_config_def disabled_def render_order_def partNames_def)

lemma shown_parts_WithoutBackground:
  "shown_parts (zero_config\<lparr>withoutBackground := True\<rparr>) = removeAll ''env'' render_order"
  by (simp add: shown_parts_def zero_config_def disabled_def render_order_def)

text \<open>
  Claim C6. For a non-empty input and each of the six part names \<open>p\<close>, the three calls
  render the same fragments (or stop with the same panic); with no option the document
  holds the fragments of \<open>env, head, clo, top, eyes, mouth\<close> in this order, with
  \<open>WithoutPart p\<close> it holds the same fragments in the same order without the one of \<open>p\<close>,
  and with \<open>WithoutBackground\<close> the same without the one of \<open>env\<close>.
\<close>

theorem disabling_removes_one_fragment:
  assumes "input \<noteq> []" "p \<in> set partNames"
  shows "Generate lib cat input [] =
           (case parts_loop cat zero_config (hashStr lib input) 0 partNames Map.empty of
              Inl e \<Rightarrow> Inl e
            | Inr sel \<Rightarrow> Inr (document (map (selected sel) render_order)))
       \<and> Generate lib cat input [WithoutPart p] =
           (case parts_loop cat zero_config (hashStr lib input) 0 partNames Map.empty of
              Inl e \<Rightarrow> Inl e
            | Inr sel \<Rightarrow> Inr (document (map (selected sel) (removeAll p render_order))))
       \<and> Generate lib cat input [WithoutBackground] =
           (case parts_loop cat zero_config (hashStr lib input) 0 partNames Map.empty of
              Inl e \<Rightarrow> Inl e
            | Inr sel \<Rightarrow> Inr (document (map (selected sel) (removeAll ''env'' render_order))))"
proof -
  have none: "apply_options lib [] = zero_config"
    by (simp add: apply_options_def)
  have bg: "apply_options lib [WithoutBackground] = zero_config\<lparr>withoutBackground := True\<rparr>"
    by (simp add: apply_options_def)
  have l1: "parts_loop cat (zero_config\<lparr>disabledParts := [p \<mapsto> True]\<rparr>) hs i names sel
            = parts_loop cat zero_config hs i names sel" for hs i names sel
    by (rule parts_loop_cong) (rule render_part_disabledParts)
  have l2: "parts_loop cat (zero_config\<lparr>withoutBackground := True\<rparr>) hs i names sel
            = parts_loop cat zero_config hs i names sel" for hs i names sel
    by (rule parts_loop_cong) (rule render_part_withoutBackground)
  show ?thesis
    by (simp add: Generate_nonempty [OF assms(1)] none bg apply_WithoutPart [OF assms(2)]
        l1 l2 shown_parts_zero shown_parts_WithoutPart [OF assms(2)]
        shown_parts_WithoutBackground cong: sum.case_cong)
qed

theorem disabling_removes_one_fragment_witness:
  "Generate plain_lib demo_catalog ''Binx Bond123'' []
     = Inr (document [''<0 06A;>'', ''<2 06A;>'', ''<1 06A;>'', ''<5 06A;>'', ''<4 06A;>'', ''<3 06A;>''])
   \<and> Generate plain_lib demo_catalog ''Binx Bond123'' [WithoutPart ''top'']
     = Inr (document [''<0 06A;>'', ''<2 06A;>'', ''<1 06A;>'', ''<4 06A;>'', ''<3 06A;>''])
   \<and> Generate plain_lib demo_catalog ''Binx Bond123'' [WithoutBackground]
     = Inr (document [''<2 06A;>'', ''<1 06A;>'', ''<5 06A;>'', ''<4 06A;>'', ''<3 06A;>''])"
proof -
  have h: "''Binx Bond123'' \<noteq> []" "''top'' \<in> set partNames"
    by (simp_all add: partNames_def)
  from disabling_removes_one_fragment [OF h, of plain_lib demo_catalog]
  show ?thesis
    by (simp add: plain_loop render_order_def selected_def)
qed

subsection \<open>The gender presets\<close>









section \<open>The earlier version of the package file\<close>

text \<open>
  \<^verbatim>\<open>multiavatar.go\<close> holds the package as it was before the options were added: the
  configuration has the field \<^verbatim>\<open>withoutBackground\<close> only, \<^verbatim>\<open>WithoutBackground\<close> is the
  only option, every part takes its seed-derived default and is rendered by
  \<^verbatim>\<open>getFinalPart\<close>. Seed extraction, scaling and substitution are the functions above.
\<close>

datatype Option_v1 = WithoutBackground_v1

definition render_part_v1 :: "catalog \<Rightarrow> string \<Rightarrow> int \<Rightarrow> error + string" where
  "render_part_v1 cat name val =
     (case default_part (scale_nr val) of
        (partV, theme) \<Rightarrow> getFinalPart cat name partV theme)"

fun parts_loop_v1 ::
  "catalog \<Rightarrow> string \<Rightarrow> nat \<Rightarrow> string list \<Rightarrow> (string \<rightharpoonup> string) \<Rightarrow>
   error + (string \<rightharpoonup> string)" where
  "parts_loop_v1 cat hs i [] selectedParts = Inr selectedParts"
| "parts_loop_v1 cat hs i (name # names) selectedParts =
     (case raw_value hs i of
        Inl e \<Rightarrow> Inl e
      | Inr val \<Rightarrow>
          (case render_part_v1 cat name val of
             Inl e \<Rightarrow> Inl e
           | Inr part \<Rightarrow> parts_loop_v1 cat hs (Suc i) names (selectedParts(name \<mapsto> part))))"

definition Generate_v1 :: "stdlib \<Rightarrow> catalog \<Rightarrow> string \<Rightarrow> Option_v1 list \<Rightarrow> error + string" where
  "Generate_v1 lib cat input opts =
     (let withoutBackground = foldl (\<lambda>c opt. True) False opts in
      if input = [] then Inr []
      else (case parts_loop_v1 cat (hashStr lib input) 0 partNames Map.empty of
              Inl e \<Rightarrow> Inl e
            | Inr selectedParts \<Rightarrow>
                Inr (svgStart
                     @ (if \<not> withoutBackground then selected selectedParts ''env'' else [])
                     @ selected selectedParts ''head''
                     @ selected selectedParts ''clo''
                     @ selected selectedParts ''top''
                     @ selected selectedParts ''eyes''
                     @ selected selectedParts ''mouth''
                     @ svgEnd)))"

text \<open>The later version with no option but \<^verbatim>\<open>WithoutBackground\<close> is the earlier version.\<close>

lemma render_part_v1_eq:
  assumes "selectedTheme cfg = None" "partTheme cfg = Map.empty" "allowedThemes cfg = Map.empty"
    and "forcePartV cfg = Map.empty" "allowedVersions cfg = Map.empty"
    and "overrideColors cfg = Map.empty"
  shows "render_part cat cfg name val = render_part_v1 cat name val"
  using assms
  by (simp add: render_part_def render_part_v1_def resolve_part_def resolve_theme_def
      resolve_version_def override_of_def getFinalPart_eq split: prod.splits)

lemma parts_loop_v1_eq:
  assumes "\<And>name val. render_part cat cfg name val = render_part_v1 cat name val"
  shows "parts_loop cat cfg hs i names sel = parts_loop_v1 cat hs i names sel"
  by (induction names arbitrary: i sel) (auto simp: assms split: sum.splits)

lemma foldl_WithoutBackground:
  "foldl (\<lambda>c opt. apply_option lib opt c) c (map (\<lambda>opt. WithoutBackground) opts)
   = c\<lparr>withoutBackground := foldl (\<lambda>c opt. True) (withoutBackground c) opts\<rparr>"
  by (induction opts arbitrary: c) simp_all

lemma Generate_v1_eq:
  "Generate_v1 lib cat input opts = Generate lib cat input (map (\<lambda>opt. WithoutBackground) opts)"
proof -
  let ?cfg = "apply_options lib (map (\<lambda>opt. WithoutBackground) opts)"
  have cfg: "?cfg = zero_config\<lparr>withoutBackground := foldl (\<lambda>c opt. True) False opts\<rparr>"
    by (simp add: apply_options_def foldl_WithoutBackground zero_config_def)
  have "render_part cat ?cfg name val = render_part_v1 cat name val" for name val
    by (rule render_part_v1_eq) (simp_all add: cfg zero_config_def)
  then have loop: "parts_loop cat ?cfg hs i names sel = parts_loop_v1 cat hs i names sel"
    for hs i names sel
    by (rule parts_loop_v1_eq)
  have d: "disabled ?cfg p = False" for p
    by (simp add: cfg disabled_def zero_config_def)
  have w: "withoutBackground ?cfg = foldl (\<lambda>c opt. True) False opts"
    by (simp add: cfg)
  show ?thesis
    by (simp add: Generate_v1_def Generate_def Let_def loop assemble_def d w
        cong: sum.case_cong)
qed

end
